theory Spec2Isabelle
  imports Complex_Main
begin

section \<open>Values of the runtime\<close>

text \<open>
  The worker in \<^verbatim>\<open>src/index.ts\<close> handles three routes: \<^verbatim>\<open>/stats\<close>,
  \<^verbatim>\<open>/insights\<close> and the ingest route \<^verbatim>\<open>/?text=...\<close>. It talks to a key-value
  namespace (\<^verbatim>\<open>FEEDBACK_CACHE\<close>), a relational table (\<^verbatim>\<open>feedback_db\<close>) and a
  text model (\<^verbatim>\<open>AI\<close>). Values that come back from \<^verbatim>\<open>JSON.parse\<close> or from the
  model are dynamically typed; they are modelled by the datatype below. Numbers are
  the integer-valued ones, as mathematical integers: this is exact for the doubles of
  the runtime below \<open>2^53\<close> in absolute value.
\<close>

datatype json =
    JNull
  | JBool bool
  | JNum int
  | JStr string
  | JArr "json list"
  | JObj "(string \<times> json) list"

datatype error = NetworkError | KVError | DbError | SyntaxError | TypeError

subsection \<open>Decimal numerals: \<^verbatim>\<open>String(n)\<close> and \<^verbatim>\<open>parseInt(s, 10)\<close>\<close>

definition digit_char :: "nat \<Rightarrow> char" where
  "digit_char d = char_of (48 + d)"

definition is_digit :: "char \<Rightarrow> bool" where
  "is_digit c = (48 \<le> (of_char c :: nat) \<and> (of_char c :: nat) \<le> 57)"

definition digit_val :: "char \<Rightarrow> nat" where
  "digit_val c = of_char c - 48"

fun show_nat :: "nat \<Rightarrow> string" where
  "show_nat n = (if n < 10 then [digit_char n] else show_nat (n div 10) @ [digit_char (n mod 10)])"

declare show_nat.simps [simp del]

definition show_int :: "int \<Rightarrow> string" where
  "show_int i = (if i < 0 then CHR ''-'' # show_nat (nat (- i)) else show_nat (nat i))"

definition digits_val :: "string \<Rightarrow> nat" where
  "digits_val ds = foldl (\<lambda>a c. 10 * a + digit_val c) 0 ds"

definition is_space :: "char \<Rightarrow> bool" where
  "is_space c = ((of_char c :: nat) \<in> {9, 10, 11, 12, 13, 32, 160})"

text \<open>
  \<^verbatim>\<open>parseInt(s, 10)\<close>: leading white space is skipped, one sign is read, then the
  longest run of decimal digits; with no digit the result is \<^verbatim>\<open>NaN\<close>, here \<open>None\<close>.
\<close>

definition parseInt10 :: "string \<Rightarrow> int option" where
  "parseInt10 s =
     (let t = dropWhile is_space s;
          neg = (case t of [] \<Rightarrow> False | c # _ \<Rightarrow> c = CHR ''-'');
          u = (case t of [] \<Rightarrow> [] | c # r \<Rightarrow> if c = CHR ''-'' \<or> c = CHR ''+'' then r else t);
          ds = takeWhile is_digit u
      in if ds = [] then None
         else Some (if neg then - int (digits_val ds) else int (digits_val ds)))"

section \<open>The key-value namespace\<close>

text \<open>
  \<^verbatim>\<open>get\<close> and \<^verbatim>\<open>put\<close> may each fail. Which calls fail is given from outside, per
  key (the ingest route reads and writes each key at most once per request). Every
  call that is made is recorded in \<open>ops\<close>, whether or not it fails.
\<close>

datatype kv_op = Get string | Put string string

record kv_state =
  store :: "string \<rightharpoonup> string"
  ops :: "kv_op list"

record faults =
  get_fails :: "string \<Rightarrow> bool"
  put_fails :: "string \<Rightarrow> bool"

definition no_faults :: faults where
  "no_faults = \<lparr>get_fails = (\<lambda>_. False), put_fails = (\<lambda>_. False)\<rparr>"

definition kv_get :: "faults \<Rightarrow> string \<Rightarrow> kv_state \<Rightarrow> (error + string option) \<times> kv_state" where
  "kv_get f k st =
     (if get_fails f k then (Inl KVError, st\<lparr>ops := ops st @ [Get k]\<rparr>)
      else (Inr (store st k), st\<lparr>ops := ops st @ [Get k]\<rparr>))"

definition kv_put :: "faults \<Rightarrow> string \<Rightarrow> string \<Rightarrow> kv_state \<Rightarrow> (error + unit) \<times> kv_state" where
  "kv_put f k v st =
     (if put_fails f k then (Inl KVError, st\<lparr>ops := ops st @ [Put k v]\<rparr>)
      else (Inr (), st\<lparr>store := (store st)(k \<mapsto> v), ops := ops st @ [Put k v]\<rparr>))"

section \<open>The count step of the ingest route\<close>

text \<open>
  Lines 131 to 145. \<^verbatim>\<open>occurrences\<close> starts at 0; the read and the write are inside
  one \<^verbatim>\<open>try\<close>, whose handler is empty. A failed read leaves the block before the
  write; a failed write leaves \<^verbatim>\<open>occurrences\<close> as already computed. The count
  is a mathematical integer here and a double in the code: the two agree, and
  \<^verbatim>\<open>String\<close> writes the decimal numeral, while the stored value and the new one
  are at most \<open>2^53\<close> in absolute value.
\<close>

definition increment_count :: "faults \<Rightarrow> string \<Rightarrow> kv_state \<Rightarrow> int \<times> kv_state" where
  "increment_count f category st =
     (let kvKey = ''category:'' @ category in
      case kv_get f kvKey st of
        (Inl e, st1) \<Rightarrow> (0, st1)
      | (Inr existing, st1) \<Rightarrow>
          (let occurrences =
                 (case existing of
                    None \<Rightarrow> 1
                  | Some ex \<Rightarrow> (case parseInt10 ex of None \<Rightarrow> 1 | Some n \<Rightarrow> n + 1))
           in (occurrences, snd (kv_put f kvKey (show_int occurrences) st1))))"

text \<open>The count a reader takes from a stored value: 0 when absent or not a number.\<close>

definition stored_count :: "string option \<Rightarrow> int" where
  "stored_count v = (case v of None \<Rightarrow> 0 | Some s \<Rightarrow> (case parseInt10 s of None \<Rightarrow> 0 | Some n \<Rightarrow> n))"

section \<open>JSON text\<close>

text \<open>
  \<^verbatim>\<open>JSON.parse\<close> and \<^verbatim>\<open>JSON.stringify\<close> are built into the runtime. The blocks of
  the handler below take the parser as an argument \<open>parse\<close> (\<open>None\<close> when
  \<^verbatim>\<open>JSON.parse\<close> throws), so what is proved of them holds for every parser. The
  serialiser is written out: strings are quoted with the escapes of
  \<^verbatim>\<open>JSON.stringify\<close>, arrays and objects are written without white space.
\<close>

definition hex_digit :: "nat \<Rightarrow> char" where
  "hex_digit d = (if d < 10 then char_of (48 + d) else char_of (87 + d))"

definition escape_char :: "char \<Rightarrow> string" where
  "escape_char c =
     (if c = CHR 0x22 then [CHR 0x5C, CHR 0x22]
      else if c = CHR 0x5C then [CHR 0x5C, CHR 0x5C]
      else if c = CHR 0x08 then [CHR 0x5C, CHR ''b'']
      else if c = CHR 0x0C then [CHR 0x5C, CHR ''f'']
      else if c = CHR 0x0A then [CHR 0x5C, CHR ''n'']
      else if c = CHR 0x0D then [CHR 0x5C, CHR ''r'']
      else if c = CHR 0x09 then [CHR 0x5C, CHR ''t'']
      else if (of_char c :: nat) < 32
        then [CHR 0x5C, CHR ''u'', CHR ''0'', CHR ''0'',
              hex_digit (of_char c div 16), hex_digit (of_char c mod 16)]
      else [c])"

definition quote :: "string \<Rightarrow> string" where
  "quote s = CHR 0x22 # concat (map escape_char s) @ [CHR 0x22]"

fun join :: "string \<Rightarrow> string list \<Rightarrow> string" where
  "join sep [] = []"
| "join sep [x] = x"
| "join sep (x # y # ys) = x @ sep @ join sep (y # ys)"

fun JSON_stringify :: "json \<Rightarrow> string" where
  "JSON_stringify JNull = ''null''"
| "JSON_stringify (JBool b) = (if b then ''true'' else ''false'')"
| "JSON_stringify (JNum n) = show_int n"
| "JSON_stringify (JStr s) = quote s"
| "JSON_stringify (JArr xs) = ''['' @ join '','' (map JSON_stringify xs) @ '']''"
| "JSON_stringify (JObj fs) =
     ''{'' @ join '','' (map (\<lambda>kv. quote (fst kv) @ '':'' @ JSON_stringify (snd kv)) fs) @ ''}''"

subsection \<open>A parser for unnested JSON text\<close>

text \<open>
  A parser for the JSON texts without nesting: a scalar (string, integer,
  \<^verbatim>\<open>true\<close>, \<^verbatim>\<open>false\<close>, \<^verbatim>\<open>null\<close>), an array of scalars, or an object whose values
  are scalars and whose keys are distinct, with white space between the tokens. On
  every other text it gives \<open>None\<close>. It is the parser at which the general statements
  below are instantiated on concrete inputs.
\<close>

definition is_ws :: "char \<Rightarrow> bool" where
  "is_ws c = (c = CHR 0x20 \<or> c = CHR 0x09 \<or> c = CHR 0x0A \<or> c = CHR 0x0D)"

definition skip_ws :: "string \<Rightarrow> string" where
  "skip_ws s = dropWhile is_ws s"

definition hex_val :: "char \<Rightarrow> nat option" where
  "hex_val c =
     (let n = (of_char c :: nat) in
      if 48 \<le> n \<and> n \<le> 57 then Some (n - 48)
      else if 97 \<le> n \<and> n \<le> 102 then Some (n - 87)
      else if 65 \<le> n \<and> n \<le> 70 then Some (n - 55)
      else None)"

definition hex4 :: "char \<Rightarrow> char \<Rightarrow> char \<Rightarrow> char \<Rightarrow> nat option" where
  "hex4 a b c d =
     (case (hex_val a, hex_val b, hex_val c, hex_val d) of
        (Some w, Some x, Some y, Some z) \<Rightarrow> Some (4096 * w + 256 * x + 16 * y + z)
      | _ \<Rightarrow> None)"

definition unescape :: "char \<Rightarrow> char option" where
  "unescape e =
     (if e = CHR 0x22 then Some (CHR 0x22)
      else if e = CHR 0x5C then Some (CHR 0x5C)
      else if e = CHR ''/'' then Some (CHR ''/'')
      else if e = CHR ''b'' then Some (CHR 0x08)
      else if e = CHR ''f'' then Some (CHR 0x0C)
      else if e = CHR ''n'' then Some (CHR 0x0A)
      else if e = CHR ''r'' then Some (CHR 0x0D)
      else if e = CHR ''t'' then Some (CHR 0x09)
      else None)"

definition cons_fst :: "'a \<Rightarrow> ('a list \<times> 'b) option \<Rightarrow> ('a list \<times> 'b) option" where
  "cons_fst x r = (case r of None \<Rightarrow> None | Some (xs, t) \<Rightarrow> Some (x # xs, t))"

text \<open>The characters of a string after its opening quote, up to the closing one.\<close>

fun parse_chars :: "string \<Rightarrow> (string \<times> string) option" where
  "parse_chars [] = None"
| "parse_chars (c # cs) =
     (if c = CHR 0x22 then Some ([], cs)
      else if c = CHR 0x5C then
        (case cs of
           [] \<Rightarrow> None
         | e # r \<Rightarrow>
             if e = CHR ''u'' then
               (case r of
                  h1 # h2 # h3 # h4 # r' \<Rightarrow>
                    (case hex4 h1 h2 h3 h4 of
                       None \<Rightarrow> None
                     | Some n \<Rightarrow> if n < 256 then cons_fst (char_of n) (parse_chars r') else None)
                | _ \<Rightarrow> None)
             else (case unescape e of None \<Rightarrow> None | Some ch \<Rightarrow> cons_fst ch (parse_chars r)))
      else if (of_char c :: nat) < 32 then None
      else cons_fst c (parse_chars cs))"

definition parse_number :: "string \<Rightarrow> (json \<times> string) option" where
  "parse_number s =
     (let neg = (case s of [] \<Rightarrow> False | c # _ \<Rightarrow> c = CHR ''-'');
          u = (if neg then tl s else s);
          ds = takeWhile is_digit u;
          r = dropWhile is_digit u
      in if ds = [] \<or> (1 < length ds \<and> hd ds = CHR ''0'') then None
         else if (case r of [] \<Rightarrow> False | c # _ \<Rightarrow> c = CHR ''.'' \<or> c = CHR ''e'' \<or> c = CHR ''E'') then None
         else Some (JNum (if neg then - int (digits_val ds) else int (digits_val ds)), r))"

definition parse_scalar :: "string \<Rightarrow> (json \<times> string) option" where
  "parse_scalar s =
     (case s of
        [] \<Rightarrow> None
      | c # r \<Rightarrow>
          if c = CHR 0x22 then (case parse_chars r of None \<Rightarrow> None | Some (t, r') \<Rightarrow> Some (JStr t, r'))
          else if take 4 s = ''null'' then Some (JNull, drop 4 s)
          else if take 4 s = ''true'' then Some (JBool True, drop 4 s)
          else if take 5 s = ''false'' then Some (JBool False, drop 5 s)
          else parse_number s)"

text \<open>
  The elements of an array after its opening bracket, and the members of an object
  after its opening brace. The first argument bounds the number of elements read; the
  length of the text is always enough.
\<close>

fun parse_elems :: "nat \<Rightarrow> string \<Rightarrow> (json list \<times> string) option" where
  "parse_elems 0 s = None"
| "parse_elems (Suc n) s =
     (case parse_scalar (skip_ws s) of
        None \<Rightarrow> None
      | Some (v, r) \<Rightarrow>
          (case skip_ws r of
             [] \<Rightarrow> None
           | c # r' \<Rightarrow>
               if c = CHR '','' then cons_fst v (parse_elems n r')
               else if c = CHR '']'' then Some ([v], r')
               else None))"

fun parse_members :: "nat \<Rightarrow> string \<Rightarrow> ((string \<times> json) list \<times> string) option" where
  "parse_members 0 s = None"
| "parse_members (Suc n) s =
     (case skip_ws s of
        [] \<Rightarrow> None
      | q # r \<Rightarrow>
          if q \<noteq> CHR 0x22 then None
          else
            (case parse_chars r of
               None \<Rightarrow> None
             | Some (k, r1) \<Rightarrow>
                 (case skip_ws r1 of
                    [] \<Rightarrow> None
                  | d # r2 \<Rightarrow>
                      if d \<noteq> CHR '':'' then None
                      else
                        (case parse_scalar (skip_ws r2) of
                           None \<Rightarrow> None
                         | Some (v, r3) \<Rightarrow>
                             (case skip_ws r3 of
                                [] \<Rightarrow> None
                              | c # r4 \<Rightarrow>
                                  if c = CHR '','' then cons_fst (k, v) (parse_members n r4)
                                  else if c = CHR ''}'' then Some ([(k, v)], r4)
                                  else None)))))"

definition at_end :: "string \<Rightarrow> bool" where
  "at_end r = (skip_ws r = [])"

definition json_parse :: "string \<Rightarrow> json option" where
  "json_parse s =
     (case skip_ws s of
        [] \<Rightarrow> None
      | c # r \<Rightarrow>
          if c = CHR ''['' then
            (case skip_ws r of
               [] \<Rightarrow> None
             | d # r' \<Rightarrow>
                 if d = CHR '']'' then (if at_end r' then Some (JArr []) else None)
                 else (case parse_elems (length r) r of
                         None \<Rightarrow> None
                       | Some (vs, t) \<Rightarrow> if at_end t then Some (JArr vs) else None))
          else if c = CHR ''{'' then
            (case skip_ws r of
               [] \<Rightarrow> None
             | d # r' \<Rightarrow>
                 if d = CHR ''}'' then (if at_end r' then Some (JObj []) else None)
                 else (case parse_members (length r) r of
                         None \<Rightarrow> None
                       | Some (ms, t) \<Rightarrow>
                           if at_end t \<and> distinct (map fst ms) then Some (JObj ms) else None))
          else (case parse_scalar (c # r) of
                  None \<Rightarrow> None
                | Some (v, t) \<Rightarrow> if at_end t then Some v else None))"

section \<open>Strings and dynamic values\<close>

fun index_of :: "char \<Rightarrow> string \<Rightarrow> nat option" where
  "index_of c [] = None"
| "index_of c (x # xs) = (if x = c then Some 0 else map_option Suc (index_of c xs))"

definition last_index_of :: "char \<Rightarrow> string \<Rightarrow> nat option" where
  "last_index_of c s = (case index_of c (rev s) of None \<Rightarrow> None | Some i \<Rightarrow> Some (length s - 1 - i))"

text \<open>\<^verbatim>\<open>s.slice(a, b)\<close> for indices that are not negative: empty when \<open>b \<le> a\<close>.\<close>

definition slice :: "string \<Rightarrow> nat \<Rightarrow> nat \<Rightarrow> string" where
  "slice s a b = take (b - a) (drop a s)"

definition trim :: "string \<Rightarrow> string" where
  "trim s = rev (dropWhile is_space (rev (dropWhile is_space s)))"

definition str_includes :: "string \<Rightarrow> string \<Rightarrow> bool" where
  "str_includes s p = list_ex (\<lambda>i. take (length p) (drop i s) = p) [0 ..< Suc (length s)]"

text \<open>\<^verbatim>\<open>name.startsWith(prefix) ? name.slice(prefix.length) : name\<close>\<close>

definition strip_prefix :: "string \<Rightarrow> string \<Rightarrow> string" where
  "strip_prefix prefix name = (if take (length prefix) name = prefix then drop (length prefix) name else name)"

text \<open>
  The conversion of a value to a string, as a template literal and
  \<^verbatim>\<open>Array.prototype.join\<close> make it; inside an array \<^verbatim>\<open>null\<close> becomes the empty string.
\<close>

fun to_str :: "json \<Rightarrow> string" where
  "to_str JNull = ''null''"
| "to_str (JBool b) = (if b then ''true'' else ''false'')"
| "to_str (JNum n) = show_int n"
| "to_str (JStr s) = s"
| "to_str (JArr xs) = join '','' (map (\<lambda>x. if x = JNull then [] else to_str x) xs)"
| "to_str (JObj fs) = ''[object Object]''"

definition elem_str :: "json \<Rightarrow> string" where
  "elem_str x = (if x = JNull then [] else to_str x)"

fun truthy :: "json \<Rightarrow> bool" where
  "truthy JNull = False"
| "truthy (JBool b) = b"
| "truthy (JNum n) = (n \<noteq> 0)"
| "truthy (JStr s) = (s \<noteq> [])"
| "truthy (JArr xs) = True"
| "truthy (JObj fs) = True"

text \<open>
  Reading a property \<^verbatim>\<open>v.k\<close>, for the keys the handler reads (\<^verbatim>\<open>sentiment\<close>,
  \<^verbatim>\<open>category\<close>, \<^verbatim>\<open>summary\<close>, \<^verbatim>\<open>merged_summary\<close>): a \<^verbatim>\<open>TypeError\<close> on
  \<^verbatim>\<open>null\<close>, the member of an object if it has one, \<^verbatim>\<open>undefined\<close> (\<open>None\<close>)
  otherwise. \<^verbatim>\<open>a ?? b\<close> is \<open>nullish a b\<close>.
\<close>

definition get_prop :: "json \<Rightarrow> string \<Rightarrow> error + json option" where
  "get_prop v k = (case v of JNull \<Rightarrow> Inl TypeError | JObj fs \<Rightarrow> Inr (map_of fs k) | _ \<Rightarrow> Inr None)"

definition nullish :: "json option \<Rightarrow> json \<Rightarrow> json" where
  "nullish a b = (case a of None \<Rightarrow> b | Some JNull \<Rightarrow> b | Some v \<Rightarrow> v)"

text \<open>
  \<^verbatim>\<open>put(key, value)\<close> with a value taken from a parsed reply. A value that is not
  a string is taken to be stored as the string it converts to; the requests evaluated
  below write strings only.
\<close>

definition kv_put_value :: "faults \<Rightarrow> string \<Rightarrow> json \<Rightarrow> kv_state \<Rightarrow> (error + unit) \<times> kv_state" where
  "kv_put_value f k v st = kv_put f k (to_str v) st"

section \<open>Responses\<close>

text \<open>
  An entry of the insights route, the fields of the success body of the ingest route,
  and a response: its status and its body. Of an error body only the \<^verbatim>\<open>error\<close>
  text is kept.
\<close>

record item =
  item_category :: string
  item_occurrences :: int
  item_summary :: "string option"
  item_examples :: json

record success =
  s_text :: string
  s_sentiment :: json
  s_category :: json
  s_summary :: json
  s_category_summary :: json
  s_occurrences :: int
  s_examples :: "json list"

datatype body = ErrorBody string | Items "item list" | Html string | Success success

datatype response = Reply nat body

section \<open>The ingest route\<close>

subsection \<open>Persisting the submission (lines 82 to 94)\<close>

record db_faults =
  create_fails :: bool
  insert_fails :: bool

definition persist :: "db_faults \<Rightarrow> string \<Rightarrow> string list \<Rightarrow> error + string list" where
  "persist d text rows =
     (if create_fails d then Inl DbError
      else if insert_fails d then Inl DbError
      else Inr (rows @ [text]))"

subsection \<open>The classifier block (lines 96 to 129)\<close>

record classification =
  sentiment :: json
  category :: json
  summary :: json

definition default_result :: classification where
  "default_result = \<lparr>sentiment = JStr ''unknown'', category = JStr ''unknown'', summary = JStr ''N/A''\<rparr>"

text \<open>
  The result of \<^verbatim>\<open>env.AI.run\<close> is \<open>Inl e\<close> when the call throws, and the value it
  resolves to otherwise (\<^verbatim>\<open>undefined\<close> is taken as \<^verbatim>\<open>null\<close>: the handler tests
  treat both alike). Lines 107 to 113 take the \<^verbatim>\<open>response\<close> of an object when it
  is a string.
\<close>

definition response_text :: "json \<Rightarrow> string option" where
  "response_text r =
     (case r of
        JObj fs \<Rightarrow> (case map_of fs ''response'' of Some (JStr s) \<Rightarrow> Some s | _ \<Rightarrow> None)
      | _ \<Rightarrow> None)"

definition assign_fields :: "json \<Rightarrow> classification" where
  "assign_fields parsed =
     (case get_prop parsed ''sentiment'' of
        Inl e \<Rightarrow> default_result
      | Inr s \<Rightarrow>
          (let r1 = default_result\<lparr>sentiment := nullish s (sentiment default_result)\<rparr> in
           case get_prop parsed ''category'' of
             Inl e \<Rightarrow> r1
           | Inr c \<Rightarrow>
               (let r2 = r1\<lparr>category := nullish c (category r1)\<rparr> in
                case get_prop parsed ''summary'' of
                  Inl e \<Rightarrow> r2
                | Inr u \<Rightarrow> r2\<lparr>summary := nullish u (summary r2)\<rparr>)))"

definition classify :: "(string \<Rightarrow> json option) \<Rightarrow> error + json \<Rightarrow> classification" where
  "classify parse aiResult =
     (case aiResult of
        Inl e \<Rightarrow> default_result
      | Inr res \<Rightarrow>
          (case response_text res of
             None \<Rightarrow> default_result
           | Some raw \<Rightarrow>
               if raw = [] then default_result
               else
                 (case index_of (CHR ''{'') raw of
                    None \<Rightarrow> default_result
                  | Some firstBrace \<Rightarrow>
                      (case last_index_of (CHR ''}'') raw of
                         None \<Rightarrow> default_result
                       | Some lastBrace \<Rightarrow>
                           (case parse (slice raw firstBrace (lastBrace + 1)) of
                              None \<Rightarrow> default_result
                            | Some parsed \<Rightarrow> assign_fields parsed)))))"

subsection \<open>The summary block (lines 147 to 203)\<close>

text \<open>
  The source text of this block is not well-formed between lines 158 and 203: the
  name \<^verbatim>\<open>aiRes\<close> is declared twice in one block (lines 162 and 169), and lines
  187 to 191 are the end of a function whose beginning is missing, closed by the
  \<^verbatim>\<open>};\<close> of line 191 and called as \<^verbatim>\<open>extractAndParseMerge(aiRes)\<close> on line
  192. The model follows the structure that the indentation and these lines show: the
  \<^verbatim>\<open>try\<close> of line 158 contains the two calls of the text model, the inner
  \<^verbatim>\<open>try\<close> of lines 171 to 186, the definition of the helper and lines 192 to
  195; its handler is \<^verbatim>\<open>catch (mergeErr)\<close> of lines 196 to 199; the outer
  \<^verbatim>\<open>try\<close> of line 149 has the handler \<^verbatim>\<open>catch (sumErr)\<close> of lines 201 to 203,
  and control then goes on to the examples block. Which of the two declarations of
  \<^verbatim>\<open>aiRes\<close> is in force, and what the missing lines of the helper compute, are
  left open: they are arguments of the model, and what is proved holds for each choice.
\<close>

text \<open>
  Line 170: the text of the merge result, trimmed; empty when there is none.
\<close>

definition text_out :: "json \<Rightarrow> string" where
  "text_out aiRes =
     (case aiRes of
        JObj fs \<Rightarrow> (case map_of fs ''response'' of Some (JStr s) \<Rightarrow> trim s | _ \<Rightarrow> [])
      | JStr s \<Rightarrow> trim s
      | _ \<Rightarrow> [])"

text \<open>
  Lines 171 to 186, the inner \<^verbatim>\<open>try\<close>: the new value of \<^verbatim>\<open>category_summary\<close> and
  the state. Its handler sets \<^verbatim>\<open>category_summary\<close> to the existing summary.
\<close>

definition store_merged ::
  "faults \<Rightarrow> string \<Rightarrow> string \<Rightarrow> json option \<Rightarrow> kv_state \<Rightarrow> json \<times> kv_state" where
  "store_merged f sumKey existingSummary m st =
     (let merged = nullish m (JStr existingSummary) in
      case kv_put_value f sumKey merged st of
        (Inl e, st1) \<Rightarrow> (JStr existingSummary, st1)
      | (Inr u, st1) \<Rightarrow> (merged, st1))"

definition merge_attempt ::
  "(string \<Rightarrow> json option) \<Rightarrow> faults \<Rightarrow> string \<Rightarrow> string \<Rightarrow> json \<Rightarrow> json \<Rightarrow> kv_state
     \<Rightarrow> json \<times> kv_state" where
  "merge_attempt parse f sumKey existingSummary category_summary aiRes st =
     (let textOut = text_out aiRes in
      if textOut \<noteq> [] then
        (case parse textOut of
           None \<Rightarrow> (JStr existingSummary, st)
         | Some parsed \<Rightarrow>
             (case get_prop parsed ''merged_summary'' of
                Inl e \<Rightarrow> (JStr existingSummary, st)
              | Inr m \<Rightarrow> store_merged f sumKey existingSummary m st))
      else
        (case aiRes of
           JObj fs \<Rightarrow> store_merged f sumKey existingSummary (map_of fs ''merged_summary'') st
         | JArr xs \<Rightarrow> store_merged f sumKey existingSummary None st
         | _ \<Rightarrow> (category_summary, st)))"

text \<open>
  The helper \<^verbatim>\<open>extractAndParseMerge\<close>. What is left of it is lines 187 to 191:
  \<^verbatim>\<open>return text ? JSON.parse(text) : null\<close> inside a \<^verbatim>\<open>try\<close> whose handler is
  \<^verbatim>\<open>return null\<close>. The missing lines compute \<^verbatim>\<open>text\<close> from the argument inside
  that \<^verbatim>\<open>try\<close>; they are the argument \<open>head\<close> (\<open>Inl\<close> when they throw).
\<close>

definition extractAndParseMerge ::
  "(string \<Rightarrow> json option) \<Rightarrow> (json \<Rightarrow> error + string) \<Rightarrow> json \<Rightarrow> json" where
  "extractAndParseMerge parse head res =
     (case head res of
        Inl e \<Rightarrow> JNull
      | Inr text \<Rightarrow> if text = [] then JNull else (case parse text of None \<Rightarrow> JNull | Some v \<Rightarrow> v))"

text \<open>\<^verbatim>\<open>v?.k\<close>: \<^verbatim>\<open>undefined\<close> on \<^verbatim>\<open>null\<close>, the member of an object if it has one.\<close>

definition optional_prop :: "json \<Rightarrow> string \<Rightarrow> json option" where
  "optional_prop v k = (case v of JObj fs \<Rightarrow> map_of fs k | _ \<Rightarrow> None)"

text \<open>
  Lines 192 to 195, with the handler of lines 196 to 199 for the write: the value
  parsed by the helper or else the reply itself when it is an object, its
  \<^verbatim>\<open>merged_summary\<close> or else the existing summary, and the write of it. This is the
  second write of the same key in one request, so its failures are given apart
  (\<open>f2\<close>).
\<close>

definition later_merge ::
  "(string \<Rightarrow> json option) \<Rightarrow> (json \<Rightarrow> error + string) \<Rightarrow> faults \<Rightarrow> string \<Rightarrow> string \<Rightarrow> json
     \<Rightarrow> kv_state \<Rightarrow> json \<times> kv_state" where
  "later_merge parse head f2 sumKey existingSummary aiRes st =
     (let h = extractAndParseMerge parse head aiRes;
          parsed = (if h \<noteq> JNull then h
                    else (case aiRes of JObj fs \<Rightarrow> aiRes | JArr xs \<Rightarrow> aiRes | _ \<Rightarrow> JNull))
      in store_merged f2 sumKey existingSummary (optional_prop parsed ''merged_summary'') st)"

text \<open>
  Lines 158 to 199, the branch for an existing summary. Both calls of the text model
  are made (lines 162 and 169); if either throws, the handler of lines 196 to 199
  sets \<^verbatim>\<open>category_summary\<close> to the existing summary. \<open>first\<close> says that the
  declaration of line 162 is the one in force.
\<close>

definition merge_branch ::
  "(string \<Rightarrow> json option) \<Rightarrow> (json \<Rightarrow> error + string) \<Rightarrow> bool \<Rightarrow> faults \<Rightarrow> faults
     \<Rightarrow> error + json \<Rightarrow> error + json \<Rightarrow> string \<Rightarrow> string \<Rightarrow> json \<Rightarrow> kv_state \<Rightarrow> json \<times> kv_state" where
  "merge_branch parse head first f f2 call1 call2 sumKey existingSummary category_summary st =
     (case call1 of
        Inl e \<Rightarrow> (JStr existingSummary, st)
      | Inr a1 \<Rightarrow>
          (case call2 of
             Inl e \<Rightarrow> (JStr existingSummary, st)
           | Inr a2 \<Rightarrow>
               (let aiRes = (if first then a1 else a2);
                    st1 = snd (merge_attempt parse f sumKey existingSummary category_summary aiRes st)
                in later_merge parse head f2 sumKey existingSummary aiRes st1)))"

text \<open>
  Lines 147 to 203. \<^verbatim>\<open>category_summary\<close> starts as the new summary; a failed
  read or a failed first write leaves it so (the handler of lines 201 to 203 is
  empty). The result is \<^verbatim>\<open>category_summary\<close> and the state.
\<close>

definition summary_step ::
  "(string \<Rightarrow> json option) \<Rightarrow> (json \<Rightarrow> error + string) \<Rightarrow> bool \<Rightarrow> faults \<Rightarrow> faults
     \<Rightarrow> error + json \<Rightarrow> error + json \<Rightarrow> json \<Rightarrow> json \<Rightarrow> kv_state \<Rightarrow> json \<times> kv_state" where
  "summary_step parse head first f f2 call1 call2 cat summ st =
     (let sumKey = ''category_summary:'' @ to_str cat in
      case kv_get f sumKey st of
        (Inl e, st1) \<Rightarrow> (summ, st1)
      | (Inr None, st1) \<Rightarrow> (summ, snd (kv_put_value f sumKey summ st1))
      | (Inr (Some existingSummary), st1) \<Rightarrow>
          merge_branch parse head first f f2 call1 call2 sumKey existingSummary summ st1)"

subsection \<open>The examples block (lines 205 to 232)\<close>

text \<open>
  \<^verbatim>\<open>Math.floor(Math.random() * 3)\<close>, with the random number \<open>r\<close> given from outside,
  and the assignment \<^verbatim>\<open>arr[idx] = v\<close>, which extends the array when the index is past
  its end.
\<close>

definition random_index :: "real \<Rightarrow> nat" where
  "random_index r = nat \<lfloor>r * 3\<rfloor>"

definition array_set :: "json list \<Rightarrow> nat \<Rightarrow> json \<Rightarrow> json list" where
  "array_set arr i v =
     (if i < length arr then arr[i := v] else arr @ replicate (i - length arr) JNull @ [v])"

definition next_examples :: "(string \<Rightarrow> json option) \<Rightarrow> string option \<Rightarrow> string \<Rightarrow> real \<Rightarrow> json list" where
  "next_examples parse raw text r =
     (case raw of
        None \<Rightarrow> [JStr text]
      | Some s \<Rightarrow>
          (case parse s of
             None \<Rightarrow> [JStr text]
           | Some (JArr arr) \<Rightarrow>
               if length arr < 3 then arr @ [JStr text]
               else array_set arr (random_index r) (JStr text)
           | Some v \<Rightarrow> [JStr text]))"

definition update_examples ::
  "(string \<Rightarrow> json option) \<Rightarrow> faults \<Rightarrow> string \<Rightarrow> string \<Rightarrow> real \<Rightarrow> kv_state \<Rightarrow> json list \<times> kv_state" where
  "update_examples parse f cat text r st =
     (let exKey = ''category_examples:'' @ cat in
      case kv_get f exKey st of
        (Inl e, st1) \<Rightarrow> ([], st1)
      | (Inr raw, st1) \<Rightarrow>
          (let examples = next_examples parse raw text r
           in (examples, snd (kv_put f exKey (JSON_stringify (JArr examples)) st1))))"

subsection \<open>The route (lines 74 to 237)\<close>

text \<open>
  What the calls of one request do is given from outside: which calls of the table
  and of the store fail (\<open>late_put\<close> for the write of line 195), what the three
  calls of the text model give, which declaration of \<^verbatim>\<open>aiRes\<close> is in force, and
  the random number.
\<close>

record env =
  db :: db_faults
  kv :: faults
  late_put :: faults
  classifier_call :: "error + json"
  merge_call_messages :: "error + json"
  merge_call_input :: "error + json"
  first_binding :: bool
  random :: real

record world =
  rows :: "string list"
  cache :: kv_state

text \<open>
  After the insert every block has its own \<^verbatim>\<open>try\<close>, so the outer handler of
  line 235 answers only for the table; line 234 answers with the fields gathered.
\<close>

definition fetch_ingest ::
  "(string \<Rightarrow> json option) \<Rightarrow> (json \<Rightarrow> error + string) \<Rightarrow> env \<Rightarrow> string option \<Rightarrow> world
     \<Rightarrow> response \<times> world" where
  "fetch_ingest parse head e text_param w =
     (case text_param of
        None \<Rightarrow> (Reply 400 (ErrorBody ''Missing \"text\" query parameter''), w)
      | Some text \<Rightarrow>
          if text = [] then (Reply 400 (ErrorBody ''Missing \"text\" query parameter''), w)
          else
            (case persist (db e) text (rows w) of
               Inl err \<Rightarrow> (Reply 500 (ErrorBody ''Database error''), w)
             | Inr rows1 \<Rightarrow>
                 (let cls = classify parse (classifier_call e);
                      (occurrences, st1) = increment_count (kv e) (to_str (category cls)) (cache w);
                      (category_summary, st2) =
                         summary_step parse head (first_binding e) (kv e) (late_put e)
                           (merge_call_messages e) (merge_call_input e) (category cls) (summary cls) st1;
                      (examples, st3) =
                         update_examples parse (kv e) (to_str (category cls)) text (random e) st2
                  in (Reply 200 (Success
                        \<lparr>s_text = text, s_sentiment = sentiment cls, s_category = category cls,
                         s_summary = summary cls, s_category_summary = category_summary,
                         s_occurrences = occurrences, s_examples = examples\<rparr>),
                      \<lparr>rows = rows1, cache = st3\<rparr>))))"

section \<open>The insights route (lines 40 to 73)\<close>

text \<open>Lines 47 to 59, the entry of one listed key; any failed read throws.\<close>

definition insights_item ::
  "(string \<Rightarrow> json option) \<Rightarrow> faults \<Rightarrow> string \<Rightarrow> kv_state \<Rightarrow> (error + item) \<times> kv_state" where
  "insights_item parse f name st =
     (let cat = strip_prefix ''category:'' name in
      case kv_get f name st of
        (Inl e, st1) \<Rightarrow> (Inl e, st1)
      | (Inr val, st1) \<Rightarrow>
          (let occurrences =
                 (case val of
                    None \<Rightarrow> 0
                  | Some v \<Rightarrow> (case parseInt10 v of None \<Rightarrow> 0 | Some n \<Rightarrow> n))
           in case kv_get f (''category_summary:'' @ cat) st1 of
                (Inl e, st2) \<Rightarrow> (Inl e, st2)
              | (Inr category_summary, st2) \<Rightarrow>
                  (case kv_get f (''category_examples:'' @ cat) st2 of
                     (Inl e, st3) \<Rightarrow> (Inl e, st3)
                   | (Inr raw, st3) \<Rightarrow>
                       (let examples =
                              (case raw of
                                 None \<Rightarrow> JArr []
                               | Some s \<Rightarrow>
                                   if s = [] then JArr []
                                   else (case parse s of None \<Rightarrow> JArr [] | Some v \<Rightarrow> v))
                        in (Inr \<lparr>item_category = cat, item_occurrences = occurrences,
                                 item_summary = category_summary, item_examples = examples\<rparr>, st3)))))"

fun collect_items ::
  "(string \<Rightarrow> json option) \<Rightarrow> faults \<Rightarrow> string list \<Rightarrow> kv_state \<Rightarrow> (error + item list) \<times> kv_state" where
  "collect_items parse f [] st = (Inr [], st)"
| "collect_items parse f (name # names) st =
     (case insights_item parse f name st of
        (Inl e, st1) \<Rightarrow> (Inl e, st1)
      | (Inr it, st1) \<Rightarrow>
          (case collect_items parse f names st1 of
             (Inl e, st2) \<Rightarrow> (Inl e, st2)
           | (Inr its, st2) \<Rightarrow> (Inr (it # its), st2)))"

subsection \<open>The HTML view (lines 62 to 68)\<close>

definition replace_all :: "char \<Rightarrow> string \<Rightarrow> string \<Rightarrow> string" where
  "replace_all c r s = concat (map (\<lambda>x. if x = c then r else [x]) s)"

definition esc :: "string \<Rightarrow> string" where
  "esc s =
     replace_all (CHR 0x22) ''&quot;''
       (replace_all (CHR ''>'') ''&gt;''
         (replace_all (CHR ''<'') ''&lt;''
           (replace_all (CHR ''&'') ''&amp;'' s)))"

text \<open>
  \<^verbatim>\<open>(it.examples || []).join(' | ')\<close>: a value that is neither falsy nor an array
  has no \<^verbatim>\<open>join\<close>, and the call throws.
\<close>

definition examples_joined :: "json \<Rightarrow> error + string" where
  "examples_joined ex =
     (if \<not> truthy ex then Inr []
      else (case ex of JArr xs \<Rightarrow> Inr (join '' | '' (map elem_str xs)) | _ \<Rightarrow> Inl TypeError))"

definition row :: "item \<Rightarrow> error + string" where
  "row it =
     (case examples_joined (item_examples it) of
        Inl e \<Rightarrow> Inl e
      | Inr j \<Rightarrow>
          Inr (''<tr><td>'' @ esc (item_category it) @ ''</td><td>'' @ show_int (item_occurrences it)
               @ ''</td><td>'' @ esc (case item_summary it of None \<Rightarrow> [] | Some s \<Rightarrow> s)
               @ ''</td><td>'' @ esc j @ ''</td></tr>''))"

fun rows_html :: "item list \<Rightarrow> error + string" where
  "rows_html [] = Inr []"
| "rows_html (it # its) =
     (case row it of
        Inl e \<Rightarrow> Inl e
      | Inr x \<Rightarrow> (case rows_html its of Inl e \<Rightarrow> Inl e | Inr y \<Rightarrow> Inr (x @ y)))"

definition wants_html :: "string option \<Rightarrow> string option \<Rightarrow> bool" where
  "wants_html accept view =
     (str_includes (case accept of None \<Rightarrow> [] | Some a \<Rightarrow> a) ''text/html'' \<or> view = Some ''html'')"

definition page :: "string \<Rightarrow> string" where
  "page rs =
     ''<!doctype html><html><head><meta charset='' @ [CHR 0x22] @ ''utf-8'' @ [CHR 0x22]
     @ ''><title>Insights</title></head><body><table border='' @ [CHR 0x22] @ ''1'' @ [CHR 0x22]
     @ '' cellpadding='' @ [CHR 0x22] @ ''4'' @ [CHR 0x22]
     @ '' cellspacing='' @ [CHR 0x22] @ ''0'' @ [CHR 0x22]
     @ ''><thead><tr><th>Category</th><th>Occurrences</th><th>Summary</th><th>Examples</th></tr></thead><tbody>''
     @ rs @ ''</tbody></table></body></html>''"

text \<open>
  The route, given the names the listing returns (or that the listing fails). The
  entries are sorted by occurrences, largest first, keeping the listing's order among
  equals.
\<close>

definition insights ::
  "(string \<Rightarrow> json option) \<Rightarrow> faults \<Rightarrow> error + string list \<Rightarrow> string option \<Rightarrow> string option
     \<Rightarrow> kv_state \<Rightarrow> response \<times> kv_state" where
  "insights parse f listing accept view st =
     (case listing of
        Inl e \<Rightarrow> (Reply 500 (ErrorBody ''KV read error''), st)
      | Inr names \<Rightarrow>
          (case collect_items parse f names st of
             (Inl e, st1) \<Rightarrow> (Reply 500 (ErrorBody ''KV read error''), st1)
           | (Inr its, st1) \<Rightarrow>
               (let items = sort_key (\<lambda>it. - item_occurrences it) its in
                if wants_html accept view then
                  (case rows_html items of
                     Inl e \<Rightarrow> (Reply 500 (ErrorBody ''KV read error''), st1)
                   | Inr rs \<Rightarrow> (Reply 200 (Html (page rs)), st1))
                else (Reply 200 (Items items), st1))))"

section \<open>Reference definitions\<close>

text \<open>
  The escaping of the HTML view in the words of its description: each character is
  replaced by its entity, one character at a time.
\<close>

definition html_entity :: "char \<Rightarrow> string" where
  "html_entity c =
     (if c = CHR ''&'' then ''&amp;''
      else if c = CHR ''<'' then ''&lt;''
      else if c = CHR ''>'' then ''&gt;''
      else if c = CHR 0x22 then ''&quot;''
      else [c])"

definition escape_each :: "string \<Rightarrow> string" where
  "escape_each s = concat (map html_entity s)"

text \<open>
  A row of the HTML table in the words of its description: the category, the summary
  (empty when there is none) and the example texts joined by \<^verbatim>\<open> | \<close>, each with
  every character replaced by its entity.
\<close>

definition joined_examples :: "json \<Rightarrow> string" where
  "joined_examples ex = (case ex of JArr xs \<Rightarrow> join '' | '' (map elem_str xs) | _ \<Rightarrow> [])"

definition escaped_row :: "item \<Rightarrow> string" where
  "escaped_row it =
     ''<tr><td>'' @ escape_each (item_category it) @ ''</td><td>'' @ show_int (item_occurrences it)
     @ ''</td><td>'' @ escape_each (case item_summary it of None \<Rightarrow> [] | Some s \<Rightarrow> s)
     @ ''</td><td>'' @ escape_each (joined_examples (item_examples it)) @ ''</td></tr>''"

text \<open>
  The failures of the classifier in the words of their description: the call throws
  (a network error), the reply has no text or no pair of braces, the text between the
  braces is not JSON, or what it parses to has none of the three keys.
\<close>

definition no_fields :: "json \<Rightarrow> bool" where
  "no_fields p =
     (case p of
        JObj fs \<Rightarrow> nullish (map_of fs ''sentiment'') JNull = JNull
                   \<and> nullish (map_of fs ''category'') JNull = JNull
                   \<and> nullish (map_of fs ''summary'') JNull = JNull
      | _ \<Rightarrow> True)"

definition classifier_failed :: "(string \<Rightarrow> json option) \<Rightarrow> error + json \<Rightarrow> bool" where
  "classifier_failed parse c =
     (case c of
        Inl e \<Rightarrow> True
      | Inr res \<Rightarrow>
          (case response_text res of
             None \<Rightarrow> True
           | Some raw \<Rightarrow>
               (case index_of (CHR ''{'') raw of
                  None \<Rightarrow> True
                | Some i \<Rightarrow>
                    (case last_index_of (CHR ''}'') raw of
                       None \<Rightarrow> True
                     | Some j \<Rightarrow>
                         (case parse (slice raw i (j + 1)) of
                            None \<Rightarrow> True
                          | Some p \<Rightarrow> no_fields p)))))"

text \<open>
  The failures of the merge in the words of their description: a call of the text
  model throws, or the reply is not itself an object with a merged summary and its
  text is empty, is not JSON, or parses to something without a merged summary. Since
  the first lines of the helper are missing, a failed reply is also one in which the
  helper finds no merged summary.
\<close>

definition merged_summary_in :: "json \<Rightarrow> json option" where
  "merged_summary_in v =
     (case v of
        JObj fs \<Rightarrow> (case map_of fs ''merged_summary'' of Some JNull \<Rightarrow> None | m \<Rightarrow> m)
      | _ \<Rightarrow> None)"

definition reply_failed :: "(string \<Rightarrow> json option) \<Rightarrow> (json \<Rightarrow> error + string) \<Rightarrow> json \<Rightarrow> bool" where
  "reply_failed parse head aiRes =
     (merged_summary_in aiRes = None
      \<and> (text_out aiRes = []
           \<or> (case parse (text_out aiRes) of None \<Rightarrow> True | Some p \<Rightarrow> merged_summary_in p = None))
      \<and> merged_summary_in (extractAndParseMerge parse head aiRes) = None)"

definition merge_failed ::
  "(string \<Rightarrow> json option) \<Rightarrow> (json \<Rightarrow> error + string) \<Rightarrow> bool \<Rightarrow> error + json \<Rightarrow> error + json \<Rightarrow> bool" where
  "merge_failed parse head first call1 call2 =
     (case call1 of
        Inl e \<Rightarrow> True
      | Inr a1 \<Rightarrow>
          (case call2 of
             Inl e \<Rightarrow> True
           | Inr a2 \<Rightarrow> reply_failed parse head (if first then a1 else a2)))"

text \<open>A helper whose missing lines take the text of the reply as line 170 does.\<close>

definition head_as_line_170 :: "json \<Rightarrow> error + string" where
  "head_as_line_170 res = Inr (text_out res)"

text \<open>
  An entry of the insights route agrees with what is stored for its key: its category
  is the key without the prefix; its summary is null when no summary is stored; its
  examples are the empty sequence when the stored value is absent, is the empty string
  or is not JSON; and they are the stored array when the stored value parses to one.
  Nothing is said here of a stored value that parses to something else.
\<close>

definition entry_as_stored :: "(string \<Rightarrow> json option) \<Rightarrow> (string \<rightharpoonup> string) \<Rightarrow> string \<Rightarrow> item \<Rightarrow> bool" where
  "entry_as_stored parse m name it =
     (item_category it = strip_prefix ''category:'' name
      \<and> (m (''category_summary:'' @ strip_prefix ''category:'' name) = None \<longrightarrow> item_summary it = None)
      \<and> (m (''category_examples:'' @ strip_prefix ''category:'' name) = None
           \<or> m (''category_examples:'' @ strip_prefix ''category:'' name) = Some [] \<longrightarrow>
           item_examples it = JArr [])
      \<and> (\<forall>s. m (''category_examples:'' @ strip_prefix ''category:'' name) = Some s \<and> parse s = None \<longrightarrow>
           item_examples it = JArr [])
      \<and> (\<forall>s xs. m (''category_examples:'' @ strip_prefix ''category:'' name) = Some s \<and> s \<noteq> []
               \<and> parse s = Some (JArr xs) \<longrightarrow> item_examples it = JArr xs))"

section \<open>Sequences of updates\<close>

text \<open>
  A sequence of example-set updates for one category: each has its submission text,
  its random number and its own failures of the store.
\<close>

record example_update =
  u_faults :: faults
  u_text :: string
  u_random :: real

fun run_updates :: "(string \<Rightarrow> json option) \<Rightarrow> string \<Rightarrow> example_update list \<Rightarrow> kv_state \<Rightarrow> kv_state" where
  "run_updates parse cat [] st = st"
| "run_updates parse cat (u # us) st =
     run_updates parse cat us (snd (update_examples parse (u_faults u) cat (u_text u) (u_random u) st))"

text \<open>The stored example sequence, as a reader parses it.\<close>

definition stored_examples :: "(string \<Rightarrow> json option) \<Rightarrow> string \<Rightarrow> kv_state \<Rightarrow> json list option" where
  "stored_examples parse cat st =
     (case store st (''category_examples:'' @ cat) of
        None \<Rightarrow> None
      | Some s \<Rightarrow> (case parse s of Some (JArr xs) \<Rightarrow> Some xs | _ \<Rightarrow> None))"

section \<open>Concurrent count steps\<close>

text \<open>
  \<open>N\<close> requests run the count step (lines 135 to 142) on the same key. Each makes
  two calls of the store, \<^verbatim>\<open>get\<close> and then \<^verbatim>\<open>put\<close>; between the two it holds
  the value it is going to write. The calls are atomic and may interleave in any
  order: a schedule is a list of events, each naming the request that makes its next
  call and saying whether that call fails. \<open>count_value\<close> is what is stored under
  the key; \<open>written\<close> counts the writes that succeeded.
\<close>

datatype pc = AtGet | AtPut int | Done

record config =
  count_value :: "string option"
  procs :: "pc list"
  written :: nat

datatype event = Op nat bool

definition init :: "nat \<Rightarrow> config" where
  "init N = \<lparr>count_value = None, procs = replicate N AtGet, written = 0\<rparr>"

fun step :: "event \<Rightarrow> config \<Rightarrow> config" where
  "step (Op i fails) c =
     (if i < length (procs c) then
        (case procs c ! i of
           AtGet \<Rightarrow>
             if fails then c\<lparr>procs := (procs c)[i := Done]\<rparr>
             else c\<lparr>procs := (procs c)[i := AtPut
                     (case count_value c of
                        None \<Rightarrow> 1
                      | Some ex \<Rightarrow> (case parseInt10 ex of None \<Rightarrow> 1 | Some n \<Rightarrow> n + 1))]\<rparr>
         | AtPut occurrences \<Rightarrow>
             if fails then c\<lparr>procs := (procs c)[i := Done]\<rparr>
             else c\<lparr>count_value := Some (show_int occurrences), procs := (procs c)[i := Done],
                    written := Suc (written c)\<rparr>
         | Done \<Rightarrow> c)
      else c)"

fun run :: "event list \<Rightarrow> config \<Rightarrow> config" where
  "run [] c = c"
| "run (e # es) c = run es (step e c)"

text \<open>
  What holds of every configuration a schedule reaches from \<open>init N\<close>: the stored
  count is absent with nothing written, or is the numeral of a value between 1 and the
  number of writes that succeeded; a request between its two calls holds a value
  between 1 and that number plus one; and every write that succeeded belongs to a
  request that has finished.
\<close>

fun pending_ok :: "nat \<Rightarrow> pc \<Rightarrow> bool" where
  "pending_ok w (AtPut occ) = (1 \<le> occ \<and> occ \<le> int w + 1)"
| "pending_ok w AtGet = True"
| "pending_ok w Done = True"

definition count_inv :: "config \<Rightarrow> bool" where
  "count_inv c =
     ((case count_value c of
         None \<Rightarrow> written c = 0
       | Some s \<Rightarrow> s = show_int (stored_count (Some s)) \<and> 1 \<le> stored_count (Some s)
                    \<and> stored_count (Some s) \<le> int (written c))
      \<and> list_all (pending_ok (written c)) (procs c)
      \<and> written c \<le> count_list (procs c) Done)"

section \<open>Concrete requests\<close>

text \<open>
  A classifier reply and a merge reply as the prompts ask for them, an environment in
  which every call succeeds, one in which only the table works, and stores in which a
  category has been seen before.
\<close>

definition classifier_reply :: json where
  "classifier_reply =
     JObj [(''response'', JStr (JSON_stringify (JObj
       [(''sentiment'', JStr ''negative''), (''category'', JStr ''billing''),
        (''summary'', JStr ''Checkout is slow.'')])))]"

definition merge_reply :: json where
  "merge_reply =
     JObj [(''response'', JStr (JSON_stringify (JObj
       [(''merged_summary'', JStr ''Checkout is slow and fails.'')])))]"

text \<open>A reply of the text model with the given text.\<close>

definition reply_with :: "string \<Rightarrow> error + json" where
  "reply_with s = Inr (JObj [(''response'', JStr s)])"

definition all_succeed :: env where
  "all_succeed =
     \<lparr>db = \<lparr>create_fails = False, insert_fails = False\<rparr>, kv = no_faults, late_put = no_faults,
      classifier_call = Inr classifier_reply,
      merge_call_messages = Inr merge_reply, merge_call_input = Inr merge_reply,
      first_binding = False, random = 1/2\<rparr>"

text \<open>An environment in which the table works and every later call fails.\<close>

definition all_faults :: faults where
  "all_faults = \<lparr>get_fails = (\<lambda>_. True), put_fails = (\<lambda>_. True)\<rparr>"

definition only_table_works :: env where
  "only_table_works =
     \<lparr>db = \<lparr>create_fails = False, insert_fails = False\<rparr>, kv = all_faults, late_put = all_faults,
      classifier_call = Inl NetworkError,
      merge_call_messages = Inl NetworkError, merge_call_input = Inl NetworkError,
      first_binding = False, random = 1/2\<rparr>"

definition seen_billing :: world where
  "seen_billing =
     \<lparr>rows = [''checkout fails''],
      cache = \<lparr>store = [''category:billing'' \<mapsto> ''1'',
                         ''category_summary:billing'' \<mapsto> ''Checkout fails.'',
                         ''category_examples:billing'' \<mapsto> JSON_stringify (JArr [JStr ''checkout fails''])],
               ops = []\<rparr>\<rparr>"

definition seen_unknown :: world where
  "seen_unknown =
     \<lparr>rows = [''checkout fails''],
      cache = \<lparr>store = [''category:unknown'' \<mapsto> ''1'',
                         ''category_summary:unknown'' \<mapsto> ''N/A'',
                         ''category_examples:unknown'' \<mapsto> JSON_stringify (JArr [JStr ''checkout fails''])],
               ops = []\<rparr>\<rparr>"

text \<open>
  The summary step for a new summary of the category \<^verbatim>\<open>billing\<close>, seen before, with
  the store working: \<^verbatim>\<open>category_summary\<close> and the summary stored afterwards.
\<close>

definition merge_outcome :: "error + json \<Rightarrow> error + json \<Rightarrow> json \<times> string option" where
  "merge_outcome call1 call2 =
     (fst (summary_step json_parse head_as_line_170 False no_faults no_faults call1 call2
             (JStr ''billing'') (JStr ''Checkout is slow.'') (cache seen_billing)),
      store (snd (summary_step json_parse head_as_line_170 False no_faults no_faults call1 call2
             (JStr ''billing'') (JStr ''Checkout is slow.'') (cache seen_billing)))
        ''category_summary:billing'')"

section \<open>The parser inverts the serialiser on arrays of strings\<close>

lemma hex_val_hex_digit: "d < 16 \<Longrightarrow> hex_val (hex_digit d) = Some d"
  by (auto simp: hex_val_def hex_digit_def Let_def)

lemma cons_fst_Some: "cons_fst x (Some (xs, t)) = Some (x # xs, t)"
  by (simp add: cons_fst_def)

lemma hex4_control:
  assumes "n < 32"
  shows "hex4 (CHR ''0'') (CHR ''0'') (hex_digit (n div 16)) (hex_digit (n mod 16)) = Some n"
proof -
  have a: "hex_val (CHR ''0'') = Some 0" by (simp add: hex_val_def)
  have b: "hex_val (hex_digit (n div 16)) = Some (n div 16)"
    using assms by (intro hex_val_hex_digit) simp
  have c: "hex_val (hex_digit (n mod 16)) = Some (n mod 16)"
    by (intro hex_val_hex_digit) simp
  show ?thesis by (simp add: hex4_def a b c)
qed

lemma parse_chars_escape_char:
  "parse_chars (escape_char c @ rest) = cons_fst c (parse_chars rest)"
proof -
  consider (q) "c = CHR 0x22" | (b) "c = CHR 0x5C" | (c8) "c = CHR 0x08" | (cc) "c = CHR 0x0C"
    | (ca) "c = CHR 0x0A" | (cd) "c = CHR 0x0D" | (c9) "c = CHR 0x09"
    | (ctl) "c \<noteq> CHR 0x22" "c \<noteq> CHR 0x5C" "c \<noteq> CHR 0x08" "c \<noteq> CHR 0x0C" "c \<noteq> CHR 0x0A"
        "c \<noteq> CHR 0x0D" "c \<noteq> CHR 0x09" "(of_char c :: nat) < 32"
    | (lit) "c \<noteq> CHR 0x22" "c \<noteq> CHR 0x5C" "\<not> (of_char c :: nat) < 32"
    by blast
  then show ?thesis
  proof cases
    case ctl
    have e: "escape_char c = [CHR 0x5C, CHR ''u'', CHR ''0'', CHR ''0'',
              hex_digit (of_char c div 16), hex_digit (of_char c mod 16)]"
      using ctl by (simp add: escape_char_def)
    have h: "hex4 (CHR ''0'') (CHR ''0'') (hex_digit (of_char c div 16)) (hex_digit (of_char c mod 16))
              = Some (of_char c)"
      using ctl(8) by (rule hex4_control)
    have lt: "(of_char c :: nat) < 256" using ctl(8) by simp
    show ?thesis by (simp add: e h lt)
  next
    case lit
    then have e: "escape_char c = [c]"
      by (auto simp: escape_char_def)
    show ?thesis using lit by (simp add: e)
  qed (simp_all add: escape_char_def unescape_def)
qed

lemma parse_chars_escaped:
  "parse_chars (concat (map escape_char s) @ CHR 0x22 # rest) = Some (s, rest)"
proof (induction s)
  case Nil
  show ?case by simp
next
  case (Cons c s)
  have "parse_chars (concat (map escape_char (c # s)) @ CHR 0x22 # rest)
        = parse_chars (escape_char c @ (concat (map escape_char s) @ CHR 0x22 # rest))"
    by simp
  also have "\<dots> = cons_fst c (parse_chars (concat (map escape_char s) @ CHR 0x22 # rest))"
    by (rule parse_chars_escape_char)
  also have "\<dots> = Some (c # s, rest)"
    by (simp add: Cons.IH cons_fst_Some)
  finally show ?case .
qed

lemma parse_scalar_quote: "parse_scalar (quote s @ rest) = Some (JStr s, rest)"
  by (simp add: parse_scalar_def quote_def parse_chars_escaped)

lemma skip_ws_quote: "skip_ws (quote s @ rest) = quote s @ rest"
  by (simp add: skip_ws_def quote_def is_ws_def)

lemma skip_ws_sep:
  "skip_ws (CHR '','' # r) = CHR '','' # r" "skip_ws (CHR '']'' # r) = CHR '']'' # r"
  by (simp_all add: skip_ws_def is_ws_def)

lemma parse_elems_strings:
  "ts \<noteq> [] \<Longrightarrow> length ts \<le> n \<Longrightarrow>
     parse_elems n (join '','' (map quote ts) @ CHR '']'' # rest) = Some (map JStr ts, rest)"
proof (induction ts arbitrary: n)
  case Nil
  then show ?case by simp
next
  case (Cons t ts)
  then obtain m where n: "n = Suc m" by (cases n) auto
  show ?case
  proof (cases ts)
    case Nil
    then show ?thesis
      by (simp add: n skip_ws_quote parse_scalar_quote skip_ws_sep)
  next
    case (Cons u us)
    have j: "join '','' (map quote (t # ts)) @ CHR '']'' # rest
             = quote t @ (CHR '','' # (join '','' (map quote ts) @ CHR '']'' # rest))"
      using Cons by simp
    have ih: "parse_elems m (join '','' (map quote ts) @ CHR '']'' # rest) = Some (map JStr ts, rest)"
      using Cons.IH [of m] Cons Cons.prems n by simp
    show ?thesis
      unfolding j n
      by (simp add: skip_ws_quote parse_scalar_quote skip_ws_sep ih cons_fst_Some)
  qed
qed

lemma length_join_quote: "length ts \<le> length (join '','' (map quote ts) @ rest)"
proof (induction ts rule: induct_list012)
  case 1 show ?case by simp
next
  case (2 x) show ?case by (simp add: quote_def)
next
  case (3 x y zs) then show ?case by (simp add: quote_def)
qed

lemma json_parse_string_array:
  "json_parse (JSON_stringify (JArr (map JStr ts))) = Some (JArr (map JStr ts))"
proof (cases ts)
  case Nil
  then show ?thesis by (simp add: json_parse_def skip_ws_def is_ws_def at_end_def)
next
  case (Cons u us)
  have m: "map JSON_stringify (map JStr ts) = map quote ts" by simp
  have s: "JSON_stringify (JArr (map JStr ts)) = CHR ''['' # (join '','' (map quote ts) @ CHR '']'' # [])"
    by (simp add: m del: map_map)
  obtain r where r: "join '','' (map quote ts) = CHR 0x22 # r"
    using Cons by (cases us) (simp_all add: quote_def)
  have pe: "parse_elems (length (join '','' (map quote ts) @ CHR '']'' # []))
               (join '','' (map quote ts) @ CHR '']'' # []) = Some (map JStr ts, [])"
    using Cons length_join_quote [of ts "[CHR '']'']"] by (intro parse_elems_strings) simp_all
  show ?thesis
    unfolding s json_parse_def
    using pe by (simp add: skip_ws_def is_ws_def r at_end_def)
qed

section \<open>Decimal numerals are read back\<close>

lemma of_char_digit_char: "d < 10 \<Longrightarrow> (of_char (digit_char d) :: nat) = 48 + d"
  by (simp add: digit_char_def)

lemma digit_char_props:
  assumes "d < 10"
  shows "is_digit (digit_char d)" "digit_val (digit_char d) = d" "\<not> is_space (digit_char d)"
    "digit_char d \<noteq> CHR ''-''" "digit_char d \<noteq> CHR ''+''"
proof -
  note o = of_char_digit_char [OF assms]
  show "is_digit (digit_char d)" using assms by (simp add: is_digit_def o)
  show "digit_val (digit_char d) = d" by (simp add: digit_val_def o)
  show "\<not> is_space (digit_char d)" using assms by (simp add: is_space_def o)
  show "digit_char d \<noteq> CHR ''-''"
  proof
    assume "digit_char d = CHR ''-''"
    then have "(of_char (digit_char d) :: nat) = of_char (CHR ''-'')" by simp
    then show False by (simp add: o)
  qed
  show "digit_char d \<noteq> CHR ''+''"
  proof
    assume "digit_char d = CHR ''+''"
    then have "(of_char (digit_char d) :: nat) = of_char (CHR ''+'')" by simp
    then show False by (simp add: o)
  qed
qed

lemma show_nat_digits: "\<forall>c \<in> set (show_nat n). is_digit c"
proof (induction n rule: show_nat.induct)
  case (1 n)
  show ?case
  proof (cases "n < 10")
    case True
    then show ?thesis by (subst show_nat.simps) (simp add: digit_char_props)
  next
    case False
    then show ?thesis using 1 by (subst show_nat.simps) (simp add: digit_char_props)
  qed
qed

lemma digits_val_snoc: "digits_val (ds @ [c]) = 10 * digits_val ds + digit_val c"
  by (simp add: digits_val_def)

lemma digits_val_show_nat: "digits_val (show_nat n) = n"
proof (induction n rule: show_nat.induct)
  case (1 n)
  show ?case
  proof (cases "n < 10")
    case True
    then show ?thesis by (subst show_nat.simps) (simp add: digits_val_def digit_char_props)
  next
    case False
    then have "digits_val (show_nat n) = 10 * digits_val (show_nat (n div 10)) + digit_val (digit_char (n mod 10))"
      by (subst show_nat.simps) (simp add: digits_val_snoc)
    also have "\<dots> = 10 * (n div 10) + n mod 10"
      using 1 False by (simp add: digit_char_props)
    finally show ?thesis by simp
  qed
qed

lemma show_nat_hd: "\<exists>d r. show_nat n = digit_char d # r \<and> d < 10"
proof (induction n rule: show_nat.induct)
  case (1 n)
  show ?case
  proof (cases "n < 10")
    case True
    then show ?thesis by (subst show_nat.simps) auto
  next
    case False
    with 1 obtain d r where "show_nat (n div 10) = digit_char d # r" "d < 10" by blast
    then show ?thesis using False by (subst show_nat.simps) auto
  qed
qed

lemma parseInt10_show_nat: "parseInt10 (show_nat n) = Some (int n)"
proof -
  obtain d r where s: "show_nat n = digit_char d # r" and d: "d < 10"
    using show_nat_hd by blast
  have tw: "takeWhile is_digit (show_nat n) = show_nat n"
    using show_nat_digits by (simp add: takeWhile_eq_all_conv)
  have "parseInt10 (digit_char d # r) = Some (int (digits_val (takeWhile is_digit (digit_char d # r))))"
    using d tw s by (simp add: parseInt10_def digit_char_props Let_def)
  then have "parseInt10 (show_nat n) = Some (int (digits_val (takeWhile is_digit (show_nat n))))"
    unfolding s .
  then show ?thesis unfolding tw digits_val_show_nat .
qed

lemma parseInt10_show_int: "0 \<le> v \<Longrightarrow> parseInt10 (show_int v) = Some v"
  by (simp add: show_int_def parseInt10_show_nat)

section \<open>Properties of the count step\<close>

lemma kv_get_ok:
  "\<not> get_fails f k \<Longrightarrow> kv_get f k st = (Inr (store st k), st\<lparr>ops := ops st @ [Get k]\<rparr>)"
  by (simp add: kv_get_def)

lemma kv_get_failed:
  "get_fails f k \<Longrightarrow> kv_get f k st = (Inl KVError, st\<lparr>ops := ops st @ [Get k]\<rparr>)"
  by (simp add: kv_get_def)

lemma kv_put_ok:
  "\<not> put_fails f k \<Longrightarrow>
     kv_put f k v st = (Inr (), st\<lparr>store := (store st)(k \<mapsto> v), ops := ops st @ [Put k v]\<rparr>)"
  by (simp add: kv_put_def)

lemma parseInt10_minus5: "parseInt10 ''-5'' = Some (- 5)"
  by (simp add: parseInt10_def is_space_def is_digit_def digits_val_def digit_val_def)

text \<open>
  Claim C2, as stated, fails: the code adds one to the parsed value and has no lower
  bound at 0. With \<^verbatim>\<open>"-5"\<close> stored for the category, the step returns \<open>-4\<close>, not
  \<open>max (-5) 0 + 1 = 1\<close>.
\<close>

theorem C2_counterexample:
  "fst (increment_count no_faults ''billing''
          \<lparr>store = [''category:billing'' \<mapsto> ''-5''], ops = []\<rparr>) = - 4
   \<and> fst (increment_count no_faults ''billing''
          \<lparr>store = [''category:billing'' \<mapsto> ''-5''], ops = []\<rparr>) \<noteq> max (- 5) 0 + 1"
  by (simp add: increment_count_def kv_get_def kv_put_def no_faults_def parseInt10_minus5 Let_def)

text \<open>
  Claim C2, amended: when the read and the write of the category's key both succeed
  and the stored count (a missing or non-numeric value taken as 0) lies strictly
  between \<open>- 2^53\<close> and \<open>2^53\<close>, the step adds one to it (with no lower bound at
  0, so a stored negative \<open>n\<close> gives \<open>n + 1\<close>), writes the decimal numeral of the new
  value under the key and returns it. Within these bounds the doubles of the code are
  the integers of the model; beyond them the claim is not made.
\<close>

theorem C2_increment_count:
  assumes "\<not> get_fails f (''category:'' @ cat)"
    and "\<not> put_fails f (''category:'' @ cat)"
    and "\<bar>stored_count (store st (''category:'' @ cat))\<bar> < 2 ^ 53"
  shows "increment_count f cat st =
           (stored_count (store st (''category:'' @ cat)) + 1,
            st\<lparr>store := (store st)(''category:'' @ cat \<mapsto>
                     show_int (stored_count (store st (''category:'' @ cat)) + 1)),
               ops := ops st @ [Get (''category:'' @ cat),
                     Put (''category:'' @ cat)
                       (show_int (stored_count (store st (''category:'' @ cat)) + 1))]\<rparr>)"
  using assms
  by (simp add: increment_count_def kv_get_ok kv_put_ok stored_count_def Let_def
           split: option.splits)

theorem C2_increment_count_witness:
  "increment_count no_faults ''billing'' \<lparr>store = [''category:billing'' \<mapsto> ''-5''], ops = []\<rparr> =
     (- 4, \<lparr>store = [''category:billing'' \<mapsto> ''-4''],
            ops = [Get ''category:billing'', Put ''category:billing'' ''-4'']\<rparr>)
   \<and> increment_count no_faults ''billing'' \<lparr>store = Map.empty, ops = []\<rparr> =
     (1, \<lparr>store = [''category:billing'' \<mapsto> ''1''],
          ops = [Get ''category:billing'', Put ''category:billing'' ''1'']\<rparr>)"
proof -
  have g: "\<not> get_fails no_faults (''category:'' @ ''billing'')"
    and p: "\<not> put_fails no_faults (''category:'' @ ''billing'')"
    by (simp_all add: no_faults_def)
  have s1: "show_int (- 4) = ''-4''" and s2: "show_int 1 = ''1''"
    by code_simp+
  have b1: "\<bar>stored_count (store \<lparr>store = [''category:billing'' \<mapsto> ''-5''], ops = []\<rparr>
                (''category:'' @ ''billing''))\<bar> < 2 ^ 53"
    by (simp add: stored_count_def parseInt10_minus5)
  have b2: "\<bar>stored_count (store \<lparr>store = Map.empty, ops = []\<rparr> (''category:'' @ ''billing''))\<bar> < 2 ^ 53"
    by (simp add: stored_count_def)
  show ?thesis
    using C2_increment_count [OF g p b1] C2_increment_count [OF g p b2]
    by (simp add: stored_count_def parseInt10_minus5 s1 s2)
qed

text \<open>
  Claim C3, as stated, fails in its last part: the write is inside the same
  \<^verbatim>\<open>try\<close> as the read and comes after it, so a failed read skips it. Here every
  read fails; the step makes the read and no write.
\<close>

theorem C3_counterexample:
  "ops (snd (increment_count \<lparr>get_fails = (\<lambda>_. True), put_fails = (\<lambda>_. False)\<rparr> ''billing''
          \<lparr>store = [''category:billing'' \<mapsto> ''2''], ops = []\<rparr>)) = [Get ''category:billing'']
   \<and> (\<forall>v. Put ''category:billing'' v \<notin> set (ops (snd (increment_count
          \<lparr>get_fails = (\<lambda>_. True), put_fails = (\<lambda>_. False)\<rparr> ''billing''
          \<lparr>store = [''category:billing'' \<mapsto> ''2''], ops = []\<rparr>))))"
  by (simp add: increment_count_def kv_get_def)

text \<open>
  Claim C3, amended: when the read of the category's count fails, the count step
  still completes; \<^verbatim>\<open>occurrences\<close> is 0 for that submission, no write of a count
  is attempted, and the stored values are left as they were.
\<close>

theorem C3_read_failure:
  assumes "get_fails f (''category:'' @ cat)"
  shows "increment_count f cat st = (0, st\<lparr>ops := ops st @ [Get (''category:'' @ cat)]\<rparr>)"
  using assms by (simp add: increment_count_def kv_get_failed)

theorem C3_read_failure_witness:
  "increment_count \<lparr>get_fails = (\<lambda>_. True), put_fails = (\<lambda>_. False)\<rparr> ''billing''
      \<lparr>store = [''category:billing'' \<mapsto> ''2''], ops = []\<rparr> =
    (0, \<lparr>store = [''category:billing'' \<mapsto> ''2''], ops = [Get ''category:billing'']\<rparr>)"
proof -
  have g: "get_fails \<lparr>get_fails = (\<lambda>_. True), put_fails = (\<lambda>_. False)\<rparr> (''category:'' @ ''billing'')"
    by simp
  show ?thesis
    using C3_read_failure [OF g, of "\<lparr>store = [''category:billing'' \<mapsto> ''2''], ops = []\<rparr>"]
    by simp
qed

section \<open>Properties of the HTML view\<close>

lemma replace_all_append: "replace_all c r (xs @ ys) = replace_all c r xs @ replace_all c r ys"
  by (simp add: replace_all_def)

lemma esc_append: "esc (xs @ ys) = esc xs @ esc ys"
  by (simp add: esc_def replace_all_append)

lemma esc_single: "esc [x] = html_entity x"
  by (simp add: esc_def replace_all_def html_entity_def)

lemma esc_Nil: "esc [] = []"
  by (simp add: esc_def replace_all_def)

lemma esc_escape_each: "esc s = escape_each s"
proof (induction s)
  case Nil
  show ?case by (simp add: esc_Nil escape_each_def)
next
  case (Cons x xs)
  have "esc (x # xs) = esc [x] @ esc xs"
    using esc_append [of "[x]" xs] by simp
  with Cons show ?case by (simp add: esc_single escape_each_def)
qed

lemma html_entity_clean:
  "CHR ''<'' \<notin> set (html_entity c)" "CHR ''>'' \<notin> set (html_entity c)" "CHR 0x22 \<notin> set (html_entity c)"
  by (auto simp: html_entity_def)

lemma escape_each_clean:
  "CHR ''<'' \<notin> set (escape_each s) \<and> CHR ''>'' \<notin> set (escape_each s) \<and> CHR 0x22 \<notin> set (escape_each s)"
  by (simp add: escape_each_def html_entity_clean)

lemma elem_str_JStr: "map (elem_str \<circ> JStr) exs = exs"
  by (induction exs) (simp_all add: elem_str_def)

lemma examples_joined_Inr: "examples_joined ex = Inr j \<Longrightarrow> j = joined_examples ex"
  by (cases ex) (auto simp: examples_joined_def joined_examples_def split: if_splits)

lemma row_Inr: "row it = Inr x \<Longrightarrow> x = escaped_row it"
  by (auto simp: row_def escaped_row_def esc_escape_each split: sum.splits dest: examples_joined_Inr)

lemma rows_html_Inr: "rows_html its = Inr rs \<Longrightarrow> rs = concat (map escaped_row its)"
proof (induction its arbitrary: rs)
  case Nil
  then show ?case by simp
next
  case (Cons it its)
  then show ?case by (auto split: sum.splits dest: row_Inr)
qed

lemma rows_html_arrays:
  "\<forall>it \<in> set its. \<exists>xs. item_examples it = JArr xs \<Longrightarrow> rows_html its = Inr (concat (map escaped_row its))"
proof (induction its)
  case Nil
  then show ?case by simp
next
  case (Cons it its)
  then obtain xs where xs: "item_examples it = JArr xs" by auto
  have "row it = Inr (escaped_row it)"
    by (simp add: row_def escaped_row_def esc_escape_each examples_joined_def joined_examples_def xs)
  then show ?case using Cons by simp
qed

text \<open>
  Claim C10: every GET /insights request that is answered with the HTML view (an
  \<^verbatim>\<open>accept\<close> header containing \<^verbatim>\<open>text/html\<close>, or \<^verbatim>\<open>view=html\<close>) is answered with
  the page whose table body is, for the entries in their sorted order, the rows in
  which the category name, the category summary and the joined example texts have
  every \<open>&\<close>, \<open><\<close>, \<open>>\<close> and double quote replaced by its entity; the escaping of
  the code is that replacement, and no \<open><\<close>, \<open>>\<close> or double quote is left in an
  escaped text. The stored counts are at most \<open>2^53\<close> in absolute value, where the
  printed number is the decimal numeral.
\<close>

theorem C10_html_escaped:
  assumes "insights parse f (Inr names) accept view st = (Reply code (Html h), st')"
    and "\<forall>name \<in> set names. \<bar>stored_count (store st name)\<bar> \<le> 2 ^ 53"
  shows "wants_html accept view \<and> code = 200
    \<and> (\<exists>its. collect_items parse f names st = (Inr its, st')
          \<and> h = page (concat (map escaped_row (sort_key (\<lambda>it. - item_occurrences it) its))))
    \<and> (\<forall>s. esc s = escape_each s
          \<and> CHR ''<'' \<notin> set (esc s) \<and> CHR ''>'' \<notin> set (esc s) \<and> CHR 0x22 \<notin> set (esc s))"
proof -
  obtain r st1 where c: "collect_items parse f names st = (r, st1)"
    by (cases "collect_items parse f names st")
  show ?thesis
  proof (cases r)
    case (Inl e)
    then show ?thesis using assms(1) c by (simp add: insights_def)
  next
    case (Inr its)
    let ?items = "sort_key (\<lambda>it. - item_occurrences it) its"
    have w: "wants_html accept view"
      using assms(1) c Inr by (auto simp: insights_def Let_def split: if_splits)
    obtain rs where rs: "rows_html ?items = Inr rs"
      using assms(1) c Inr w by (cases "rows_html ?items") (simp_all add: insights_def Let_def)
    have "insights parse f (Inr names) accept view st = (Reply 200 (Html (page rs)), st1)"
      using c Inr w rs by (simp add: insights_def Let_def)
    then have "code = 200" "h = page rs" "st' = st1" using assms(1) by simp_all
    moreover have "rs = concat (map escaped_row ?items)" using rs by (rule rows_html_Inr)
    ultimately show ?thesis
      using w c Inr escape_each_clean by (simp add: esc_escape_each)
  qed
qed

lemma html_request_value:
  "fst (insights json_parse no_faults (Inr [''category:a<b'']) None (Some ''html'')
          \<lparr>store = [''category:a<b'' \<mapsto> ''3'', ''category_summary:a<b'' \<mapsto> ''Fast & \"easy\"'',
                    ''category_examples:a<b'' \<mapsto> JSON_stringify (JArr [JStr ''x>y'', JStr ''z''])],
           ops = []\<rparr>)
   = Reply 200 (Html (page
       ''<tr><td>a&lt;b</td><td>3</td><td>Fast &amp; &quot;easy&quot;</td><td>x&gt;y | z</td></tr>''))"
  by code_simp

theorem C10_html_escaped_witness:
  "\<exists>its. fst (collect_items json_parse no_faults [''category:a<b'']
          \<lparr>store = [''category:a<b'' \<mapsto> ''3'', ''category_summary:a<b'' \<mapsto> ''Fast & \"easy\"'',
                    ''category_examples:a<b'' \<mapsto> JSON_stringify (JArr [JStr ''x>y'', JStr ''z''])],
           ops = []\<rparr>) = Inr its
     \<and> page ''<tr><td>a&lt;b</td><td>3</td><td>Fast &amp; &quot;easy&quot;</td><td>x&gt;y | z</td></tr>''
         = page (concat (map escaped_row (sort_key (\<lambda>it. - item_occurrences it) its)))"
proof -
  let ?st = "\<lparr>store = [''category:a<b'' \<mapsto> ''3'', ''category_summary:a<b'' \<mapsto> ''Fast & \"easy\"'',
                    ''category_examples:a<b'' \<mapsto> JSON_stringify (JArr [JStr ''x>y'', JStr ''z''])],
           ops = []\<rparr>"
  let ?h = "page ''<tr><td>a&lt;b</td><td>3</td><td>Fast &amp; &quot;easy&quot;</td><td>x&gt;y | z</td></tr>''"
  have a: "insights json_parse no_faults (Inr [''category:a<b'']) None (Some ''html'') ?st
            = (Reply 200 (Html ?h),
               snd (insights json_parse no_faults (Inr [''category:a<b'']) None (Some ''html'') ?st))"
    using html_request_value by (simp add: prod_eq_iff)
  have sc: "stored_count (Some ''3'') = 3" by code_simp
  have b: "\<forall>name \<in> set [''category:a<b'']. \<bar>stored_count (store ?st name)\<bar> \<le> 2 ^ 53"
    by (simp add: sc)
  show ?thesis
    using C10_html_escaped [OF a b] by (auto simp del: JSON_stringify.simps)
qed

section \<open>Properties of the examples block\<close>

lemma random_index_less: "0 \<le> r \<Longrightarrow> r < 1 \<Longrightarrow> random_index r < 3"
  unfolding random_index_def by (simp add: nat_less_iff floor_less_iff)

lemma random_index_eq:
  assumes "0 \<le> r"
  shows "(random_index r = i) = (real i / 3 \<le> r \<and> r < (real i + 1) / 3)"
proof -
  have nn: "0 \<le> \<lfloor>r * 3\<rfloor>" using assms by simp
  have "(random_index r = i) = (\<lfloor>r * 3\<rfloor> = int i)"
    unfolding random_index_def using nn by (metis nat_int int_nat_eq)
  also have "\<dots> = (real_of_int (int i) \<le> r * 3 \<and> r * 3 < real_of_int (int i) + 1)"
    by (rule floor_eq_iff)
  also have "\<dots> = (real i / 3 \<le> r \<and> r < (real i + 1) / 3)"
    by (simp add: field_simps)
  finally show ?thesis .
qed

lemma array_set_in_range: "i < length arr \<Longrightarrow> array_set arr i v = arr[i := v]"
  by (simp add: array_set_def)

text \<open>
  Claim C6: with the stored value \<open>raw\<close> of the example set, the submission \<open>t\<close>
  and the random number \<open>r\<close> in \<open>[0, 1)\<close>: if nothing is stored, or the stored text
  does not parse, or it parses to something that is not an array, the new set is
  \<open>[t]\<close>; if it parses to an array of fewer than 3 items, the new set is that array
  with \<open>t\<close> appended; if it parses to an array of 3 items, the slot at the index
  \<open>\<lfloor>3 r\<rfloor>\<close> is overwritten by \<open>t\<close> and the other two slots are kept. The index
  is in \<open>{0, 1, 2}\<close> and each index is taken on an interval of \<open>r\<close> of length
  \<open>1/3\<close>: uniform when \<open>r\<close> is. When the read succeeds, the block computes this set
  from the stored value and writes its JSON text back.
\<close>

theorem C6_next_examples:
  assumes "0 \<le> r" and "r < 1"
  shows "next_examples parse None t r = [JStr t]
    \<and> (parse s = None \<longrightarrow> next_examples parse (Some s) t r = [JStr t])
    \<and> (parse s = Some v \<and> (\<forall>ys. v \<noteq> JArr ys) \<longrightarrow> next_examples parse (Some s) t r = [JStr t])
    \<and> (parse s = Some (JArr xs) \<and> length xs < 3 \<longrightarrow>
          next_examples parse (Some s) t r = xs @ [JStr t])
    \<and> (parse s = Some (JArr xs) \<and> length xs = 3 \<longrightarrow>
          random_index r < 3
          \<and> next_examples parse (Some s) t r = xs[random_index r := JStr t]
          \<and> next_examples parse (Some s) t r ! random_index r = JStr t
          \<and> (\<forall>j < 3. j \<noteq> random_index r \<longrightarrow> next_examples parse (Some s) t r ! j = xs ! j))
    \<and> (\<forall>i < 3. (random_index r = i) = (real i / 3 \<le> r \<and> r < (real i + 1) / 3))
    \<and> (\<not> get_fails f (''category_examples:'' @ cat) \<longrightarrow>
          update_examples parse f cat t r st =
            (next_examples parse (store st (''category_examples:'' @ cat)) t r,
             snd (kv_put f (''category_examples:'' @ cat)
                    (JSON_stringify (JArr (next_examples parse (store st (''category_examples:'' @ cat)) t r)))
                    (st\<lparr>ops := ops st @ [Get (''category_examples:'' @ cat)]\<rparr>))))"
proof -
  have i3: "random_index r < 3" using assms by (rule random_index_less)
  have a: "next_examples parse None t r = [JStr t]"
    by (simp add: next_examples_def)
  have b: "parse s = None \<longrightarrow> next_examples parse (Some s) t r = [JStr t]"
    by (simp add: next_examples_def)
  have c: "parse s = Some v \<and> (\<forall>ys. v \<noteq> JArr ys) \<longrightarrow> next_examples parse (Some s) t r = [JStr t]"
    by (cases v) (simp_all add: next_examples_def)
  have d: "parse s = Some (JArr xs) \<and> length xs < 3 \<longrightarrow>
          next_examples parse (Some s) t r = xs @ [JStr t]"
    by (simp add: next_examples_def)
  have e: "parse s = Some (JArr xs) \<and> length xs = 3 \<longrightarrow>
          random_index r < 3
          \<and> next_examples parse (Some s) t r = xs[random_index r := JStr t]
          \<and> next_examples parse (Some s) t r ! random_index r = JStr t
          \<and> (\<forall>j < 3. j \<noteq> random_index r \<longrightarrow> next_examples parse (Some s) t r ! j = xs ! j)"
    using i3 by (simp add: next_examples_def array_set_in_range)
  have g: "\<forall>i < 3. (random_index r = i) = (real i / 3 \<le> r \<and> r < (real i + 1) / 3)"
    using random_index_eq [OF assms(1)] by blast
  have h: "\<not> get_fails f (''category_examples:'' @ cat) \<longrightarrow>
          update_examples parse f cat t r st =
            (next_examples parse (store st (''category_examples:'' @ cat)) t r,
             snd (kv_put f (''category_examples:'' @ cat)
                    (JSON_stringify (JArr (next_examples parse (store st (''category_examples:'' @ cat)) t r)))
                    (st\<lparr>ops := ops st @ [Get (''category_examples:'' @ cat)]\<rparr>)))"
    by (simp add: update_examples_def kv_get_ok Let_def)
  from a b c d e g h show ?thesis by blast
qed

lemma parse_five: "json_parse ''5'' = Some (JNum 5)" by code_simp
lemma parse_not_json: "json_parse ''oops'' = None" by code_simp
lemma parse_two_strings: "json_parse (JSON_stringify (JArr [JStr ''a'', JStr ''b''])) = Some (JArr [JStr ''a'', JStr ''b''])" by code_simp
lemma parse_three_strings: "json_parse (JSON_stringify (JArr [JStr ''a'', JStr ''b'', JStr ''c''])) = Some (JArr [JStr ''a'', JStr ''b'', JStr ''c''])" by code_simp
lemma random_index_one_half: "random_index (1/2) = 1" by (simp add: random_index_def)

lemma stringify_one_string: "JSON_stringify (JArr [JStr ''d'']) = ''[\"d\"]''" by code_simp

theorem C6_next_examples_witness:
  "next_examples json_parse (Some ''oops'') ''d'' (1/2) = [JStr ''d'']
   \<and> next_examples json_parse (Some ''5'') ''d'' (1/2) = [JStr ''d'']
   \<and> next_examples json_parse (Some (JSON_stringify (JArr [JStr ''a'', JStr ''b'']))) ''d'' (1/2)
       = [JStr ''a'', JStr ''b'', JStr ''d'']
   \<and> next_examples json_parse (Some (JSON_stringify (JArr [JStr ''a'', JStr ''b'', JStr ''c'']))) ''d'' (1/2)
       = [JStr ''a'', JStr ''d'', JStr ''c'']
   \<and> update_examples json_parse no_faults ''billing'' ''d'' (1/2) \<lparr>store = Map.empty, ops = []\<rparr>
       = ([JStr ''d''],
          \<lparr>store = [''category_examples:billing'' \<mapsto> ''[\"d\"]''],
           ops = [Get ''category_examples:billing'', Put ''category_examples:billing'' ''[\"d\"]'']\<rparr>)"
proof -
  have r: "0 \<le> (1/2::real)" "(1/2::real) < 1" by simp_all
  note T = C6_next_examples [OF r, where parse = json_parse and t = "''d''"]
  have a: "next_examples json_parse (Some ''oops'') ''d'' (1/2) = [JStr ''d'']"
    using T [where s = "''oops''"] parse_not_json by blast
  have b: "next_examples json_parse (Some ''5'') ''d'' (1/2) = [JStr ''d'']"
    using T [where s = "''5''" and v = "JNum 5"] parse_five by blast
  have c: "next_examples json_parse (Some (JSON_stringify (JArr [JStr ''a'', JStr ''b'']))) ''d'' (1/2)
       = [JStr ''a'', JStr ''b'', JStr ''d'']"
    using T [where s = "JSON_stringify (JArr [JStr ''a'', JStr ''b''])" and xs = "[JStr ''a'', JStr ''b'']"] parse_two_strings
    by simp
  have d: "next_examples json_parse (Some (JSON_stringify (JArr [JStr ''a'', JStr ''b'', JStr ''c'']))) ''d'' (1/2)
       = [JStr ''a'', JStr ''d'', JStr ''c'']"
    using T [where s = "JSON_stringify (JArr [JStr ''a'', JStr ''b'', JStr ''c''])"
                and xs = "[JStr ''a'', JStr ''b'', JStr ''c'']"] parse_three_strings random_index_one_half
    by simp
  have e: "update_examples json_parse no_faults ''billing'' ''d'' (1/2) \<lparr>store = Map.empty, ops = []\<rparr>
       = ([JStr ''d''],
          \<lparr>store = [''category_examples:billing'' \<mapsto> ''[\"d\"]''],
           ops = [Get ''category_examples:billing'', Put ''category_examples:billing'' ''[\"d\"]'']\<rparr>)"
    using T [where f = no_faults and cat = "''billing''" and st = "\<lparr>store = Map.empty, ops = []\<rparr>"]
    by (simp add: no_faults_def kv_put_def stringify_one_string del: JSON_stringify.simps)
  from a b c d e show ?thesis by blast
qed

section \<open>The bound on the example set\<close>

lemma store_kv_put:
  "store (snd (kv_put f k v st)) = (if put_fails f k then store st else (store st)(k \<mapsto> v))"
  by (simp add: kv_put_def)

lemma map_JStr_update: "array_set (map JStr ts) i (JStr t) = map JStr (ts[i := t])" if "i < length ts"
  using that by (simp add: array_set_def map_update)

lemma update_examples_inv:
  assumes codec: "\<forall>ts. parse (JSON_stringify (JArr (map JStr ts))) = Some (JArr (map JStr ts))"
    and r: "0 \<le> r" "r < 1"
    and inv: "store st (''category_examples:'' @ cat) = None
              \<or> (\<exists>ts. store st (''category_examples:'' @ cat) = Some (JSON_stringify (JArr (map JStr ts)))
                       \<and> 1 \<le> length ts \<and> length ts \<le> 3)"
  shows "store (snd (update_examples parse f cat t r st)) (''category_examples:'' @ cat) = None
         \<or> (\<exists>ts. store (snd (update_examples parse f cat t r st)) (''category_examples:'' @ cat)
                     = Some (JSON_stringify (JArr (map JStr ts)))
                  \<and> 1 \<le> length ts \<and> length ts \<le> 3)"
proof (cases "get_fails f (''category_examples:'' @ cat)")
  case True
  then show ?thesis using inv by (simp add: update_examples_def kv_get_failed)
next
  case False
  let ?k = "''category_examples:'' @ cat"
  have "\<exists>ts. next_examples parse (store st ?k) t r = map JStr ts \<and> 1 \<le> length ts \<and> length ts \<le> 3"
  proof (cases "store st ?k")
    case None
    have "next_examples parse None t r = map JStr [t]" by (simp add: next_examples_def)
    then show ?thesis unfolding None by (intro exI [of _ "[t]"]) simp
  next
    case (Some s)
    with inv obtain ts where ts: "s = JSON_stringify (JArr (map JStr ts))" "1 \<le> length ts" "length ts \<le> 3"
      by auto
    have p: "parse s = Some (JArr (map JStr ts))" using codec ts(1) by simp
    show ?thesis
    proof (cases "length ts < 3")
      case True
      have "next_examples parse (Some s) t r = map JStr (ts @ [t])"
        using True by (simp add: next_examples_def p)
      then show ?thesis unfolding Some using True by (intro exI [of _ "ts @ [t]"]) simp
    next
      case False
      have i: "random_index r < length ts"
        using False ts(3) r by (simp add: random_index_def nat_less_iff floor_less_iff)
      have "next_examples parse (Some s) t r = map JStr (ts[random_index r := t])"
        using False i by (simp add: next_examples_def p map_JStr_update)
      then show ?thesis unfolding Some using ts by (intro exI [of _ "ts[random_index r := t]"]) simp
    qed
  qed
  then obtain ts where n: "next_examples parse (store st ?k) t r = map JStr ts"
    "1 \<le> length ts" "length ts \<le> 3" by blast
  have u: "store (snd (update_examples parse f cat t r st)) ?k
             = (if put_fails f ?k then store st ?k else Some (JSON_stringify (JArr (map JStr ts))))"
    using False n(1) by (simp add: update_examples_def kv_get_ok store_kv_put Let_def del: JSON_stringify.simps)
  show ?thesis
  proof (cases "put_fails f ?k")
    case True
    then show ?thesis using u inv by simp
  next
    case False
    then show ?thesis using u n by auto
  qed
qed

lemma run_updates_inv:
  assumes codec: "\<forall>ts. parse (JSON_stringify (JArr (map JStr ts))) = Some (JArr (map JStr ts))"
  shows "\<forall>u \<in> set us. 0 \<le> u_random u \<and> u_random u < 1 \<Longrightarrow>
     store st (''category_examples:'' @ cat) = None
       \<or> (\<exists>ts. store st (''category_examples:'' @ cat) = Some (JSON_stringify (JArr (map JStr ts)))
                \<and> 1 \<le> length ts \<and> length ts \<le> 3) \<Longrightarrow>
     store (run_updates parse cat us st) (''category_examples:'' @ cat) = None
       \<or> (\<exists>ts. store (run_updates parse cat us st) (''category_examples:'' @ cat)
                   = Some (JSON_stringify (JArr (map JStr ts)))
                \<and> 1 \<le> length ts \<and> length ts \<le> 3)"
proof (induction us arbitrary: st)
  case Nil
  then show ?case by simp
next
  case (Cons u us)
  have r: "0 \<le> u_random u" "u_random u < 1" using Cons.prems(1) by simp_all
  have step: "store (snd (update_examples parse (u_faults u) cat (u_text u) (u_random u) st)) (''category_examples:'' @ cat) = None
         \<or> (\<exists>ts. store (snd (update_examples parse (u_faults u) cat (u_text u) (u_random u) st)) (''category_examples:'' @ cat)
                     = Some (JSON_stringify (JArr (map JStr ts)))
                  \<and> 1 \<le> length ts \<and> length ts \<le> 3)"
    by (rule update_examples_inv [OF codec r Cons.prems(2)])
  have rest: "\<forall>u \<in> set us. 0 \<le> u_random u \<and> u_random u < 1" using Cons.prems(1) by simp
  show ?case
    using Cons.IH [OF rest step] by simp
qed

text \<open>
  Claim C7: for every category, starting from a store with no example set for it,
  after any sequence of example-set updates (each with any text, any random number in
  \<open>[0, 1)\<close> and any failures of its read and its write) the key is still absent
  or the stored examples are a sequence of at least 1 and at most 3 strings. The
  parser is any one that reads back the serialised arrays of strings.
\<close>

theorem C7_examples_bounded:
  assumes "\<forall>ts. parse (JSON_stringify (JArr (map JStr ts))) = Some (JArr (map JStr ts))"
    and "\<forall>u \<in> set us. 0 \<le> u_random u \<and> u_random u < 1"
    and "store st (''category_examples:'' @ cat) = None"
  shows "store (run_updates parse cat us st) (''category_examples:'' @ cat) = None
         \<or> (\<exists>ts. stored_examples parse cat (run_updates parse cat us st) = Some (map JStr ts)
                  \<and> 1 \<le> length ts \<and> length ts \<le> 3)"
proof -
  have "store (run_updates parse cat us st) (''category_examples:'' @ cat) = None
       \<or> (\<exists>ts. store (run_updates parse cat us st) (''category_examples:'' @ cat)
                   = Some (JSON_stringify (JArr (map JStr ts)))
                \<and> 1 \<le> length ts \<and> length ts \<le> 3)"
    using assms(2) assms(3) by (intro run_updates_inv [OF assms(1)]) simp_all
  then show ?thesis
  proof
    assume "store (run_updates parse cat us st) (''category_examples:'' @ cat) = None"
    then show ?thesis by simp
  next
    assume "\<exists>ts. store (run_updates parse cat us st) (''category_examples:'' @ cat)
                   = Some (JSON_stringify (JArr (map JStr ts)))
                \<and> 1 \<le> length ts \<and> length ts \<le> 3"
    then obtain ts where ts: "store (run_updates parse cat us st) (''category_examples:'' @ cat)
                   = Some (JSON_stringify (JArr (map JStr ts)))" "1 \<le> length ts" "length ts \<le> 3"
      by blast
    have "stored_examples parse cat (run_updates parse cat us st) = Some (map JStr ts)"
      using ts(1) assms(1) by (simp add: stored_examples_def del: JSON_stringify.simps)
    then show ?thesis using ts by blast
  qed
qed

lemma random_index_half: "random_index (1/2) = 1" by (simp add: random_index_def)

theorem C7_examples_bounded_witness:
  "store (run_updates json_parse ''billing''
            [\<lparr>u_faults = no_faults, u_text = ''a'', u_random = 1/2\<rparr>,
             \<lparr>u_faults = no_faults, u_text = ''b'', u_random = 1/2\<rparr>,
             \<lparr>u_faults = no_faults, u_text = ''c'', u_random = 1/2\<rparr>,
             \<lparr>u_faults = no_faults, u_text = ''d'', u_random = 1/2\<rparr>]
            \<lparr>store = Map.empty, ops = []\<rparr>) (''category_examples:'' @ ''billing'')
     = Some (JSON_stringify (JArr [JStr ''a'', JStr ''d'', JStr ''c'']))
   \<and> (\<exists>ts. stored_examples json_parse ''billing''
            (run_updates json_parse ''billing''
              [\<lparr>u_faults = no_faults, u_text = ''a'', u_random = 1/2\<rparr>,
               \<lparr>u_faults = no_faults, u_text = ''b'', u_random = 1/2\<rparr>,
               \<lparr>u_faults = no_faults, u_text = ''c'', u_random = 1/2\<rparr>,
               \<lparr>u_faults = no_faults, u_text = ''d'', u_random = 1/2\<rparr>]
              \<lparr>store = Map.empty, ops = []\<rparr>) = Some (map JStr ts)
          \<and> 1 \<le> length ts \<and> length ts \<le> 3)"
proof -
  let ?us = "[\<lparr>u_faults = no_faults, u_text = ''a'', u_random = 1/2\<rparr>,
             \<lparr>u_faults = no_faults, u_text = ''b'', u_random = 1/2\<rparr>,
             \<lparr>u_faults = no_faults, u_text = ''c'', u_random = 1/2\<rparr>,
             \<lparr>u_faults = no_faults, u_text = ''d'', u_random = (1/2::real)\<rparr>]"
  let ?st = "\<lparr>store = Map.empty, ops = []\<rparr>"
  have codec: "\<forall>ts. json_parse (JSON_stringify (JArr (map JStr ts))) = Some (JArr (map JStr ts))"
    using json_parse_string_array by blast
  have rnd: "\<forall>u \<in> set ?us. 0 \<le> u_random u \<and> u_random u < 1" by simp
  have fresh: "store ?st (''category_examples:'' @ ''billing'') = None" by simp
  have p1: "json_parse (JSON_stringify (JArr [JStr ''a''])) = Some (JArr [JStr ''a''])"
    using json_parse_string_array [of "[''a'']"] by (simp del: JSON_stringify.simps)
  have p2: "json_parse (JSON_stringify (JArr [JStr ''a'', JStr ''b''])) = Some (JArr [JStr ''a'', JStr ''b''])"
    using json_parse_string_array [of "[''a'', ''b'']"] by (simp del: JSON_stringify.simps)
  have p3: "json_parse (JSON_stringify (JArr [JStr ''a'', JStr ''b'', JStr ''c'']))
              = Some (JArr [JStr ''a'', JStr ''b'', JStr ''c''])"
    using json_parse_string_array [of "[''a'', ''b'', ''c'']"] by (simp del: JSON_stringify.simps)
  have v: "store (run_updates json_parse ''billing'' ?us ?st) (''category_examples:'' @ ''billing'')
             = Some (JSON_stringify (JArr [JStr ''a'', JStr ''d'', JStr ''c'']))"
    by (simp add: update_examples_def kv_get_def kv_put_def no_faults_def next_examples_def
          array_set_def random_index_half p1 p2 p3 Let_def del: JSON_stringify.simps)
  show ?thesis
    using C7_examples_bounded [OF codec rnd fresh] v by simp
qed

section \<open>Concurrent count steps: the bounds\<close>

lemma count_list_update_new:
  "i < length xs \<Longrightarrow> xs ! i \<noteq> x \<Longrightarrow> count_list (xs[i := x]) x = Suc (count_list xs x)"
proof (induction xs arbitrary: i)
  case Nil
  then show ?case by simp
next
  case (Cons a xs)
  then show ?case by (cases i) simp_all
qed

lemma count_list_update_other:
  "i < length xs \<Longrightarrow> xs ! i \<noteq> x \<Longrightarrow> y \<noteq> x \<Longrightarrow> count_list (xs[i := y]) x = count_list xs x"
proof (induction xs arbitrary: i)
  case Nil
  then show ?case by simp
next
  case (Cons a xs)
  then show ?case by (cases i) simp_all
qed

lemma list_all_update: "list_all P xs \<Longrightarrow> P y \<Longrightarrow> list_all P (xs[i := y])"
proof (induction xs arbitrary: i)
  case Nil
  then show ?case by simp
next
  case (Cons a xs)
  then show ?case by (cases i) simp_all
qed

lemma list_all_mono: "list_all P xs \<Longrightarrow> (\<And>x. P x \<Longrightarrow> Q x) \<Longrightarrow> list_all Q xs"
  by (induction xs) simp_all

lemma stored_count_show_int: "0 \<le> v \<Longrightarrow> stored_count (Some (show_int v)) = v"
  by (simp add: stored_count_def parseInt10_show_int)

lemma count_inv_init: "count_inv (init N)"
  by (simp add: count_inv_def init_def list_all_iff)

lemma count_inv_step:
  assumes inv: "count_inv c"
  shows "count_inv (step e c)"
proof (cases e)
  case (Op i fails)
  from inv have store: "case count_value c of
         None \<Rightarrow> written c = 0
       | Some s \<Rightarrow> s = show_int (stored_count (Some s)) \<and> 1 \<le> stored_count (Some s)
                    \<and> stored_count (Some s) \<le> int (written c)"
    and pend: "list_all (pending_ok (written c)) (procs c)"
    and fin: "written c \<le> count_list (procs c) Done"
    by (simp_all add: count_inv_def)
  show ?thesis
  proof (cases "i < length (procs c)")
    case False
    then show ?thesis using inv Op by simp
  next
    case True
    show ?thesis
    proof (cases "procs c ! i")
      case Done
      then show ?thesis using inv Op True by simp
    next
      case AtGet
      show ?thesis
      proof (cases fails)
        case True
        have "count_list ((procs c)[i := Done]) Done = Suc (count_list (procs c) Done)"
          using \<open>i < length (procs c)\<close> AtGet by (intro count_list_update_new) simp_all
        then show ?thesis
          using Op AtGet True \<open>i < length (procs c)\<close> store pend fin
          by (simp add: count_inv_def list_all_update split: option.splits)
      next
        case False
        let ?occ = "case count_value c of None \<Rightarrow> 1
                    | Some ex \<Rightarrow> (case parseInt10 ex of None \<Rightarrow> 1 | Some n \<Rightarrow> n + 1)"
        have occ: "1 \<le> ?occ \<and> ?occ \<le> int (written c) + 1"
        proof (cases "count_value c")
          case None
          then show ?thesis by simp
        next
          case (Some s)
          with store have s: "s = show_int (stored_count (Some s))" "1 \<le> stored_count (Some s)"
            "stored_count (Some s) \<le> int (written c)" by simp_all
          have "parseInt10 (show_int (stored_count (Some s))) = Some (stored_count (Some s))"
            using s(2) by (intro parseInt10_show_int) simp
          then have "parseInt10 s = Some (stored_count (Some s))" using s(1) by simp
          then show ?thesis using Some s by simp
        qed
        have cnt: "count_list ((procs c)[i := AtPut ?occ]) Done = count_list (procs c) Done"
          using \<open>i < length (procs c)\<close> AtGet by (intro count_list_update_other) simp_all
        have st: "step e c = c\<lparr>procs := (procs c)[i := AtPut ?occ]\<rparr>"
          using Op AtGet False \<open>i < length (procs c)\<close> by simp
        show ?thesis
          unfolding st using store pend fin occ cnt
          by (simp add: count_inv_def list_all_update split: option.splits)
      qed
    next
      case (AtPut occ)
      have occ: "1 \<le> occ" "occ \<le> int (written c) + 1"
        using pend True AtPut by (auto simp: list_all_length dest!: spec [of _ i])
      have cnt: "count_list ((procs c)[i := Done]) Done = Suc (count_list (procs c) Done)"
        using True AtPut by (intro count_list_update_new) simp_all
      show ?thesis
      proof (cases fails)
        case True
        then show ?thesis
          using Op AtPut \<open>i < length (procs c)\<close> store pend fin cnt
          by (simp add: count_inv_def list_all_update split: option.splits)
      next
        case False
        have st: "step e c = c\<lparr>count_value := Some (show_int occ), procs := (procs c)[i := Done],
                    written := Suc (written c)\<rparr>"
          using Op AtPut False \<open>i < length (procs c)\<close> by simp
        have sc: "stored_count (Some (show_int occ)) = occ"
          using occ(1) by (intro stored_count_show_int) simp
        have mono: "pending_ok (Suc (written c)) p" if "pending_ok (written c) p" for p
          using that by (cases p) simp_all
        have pend': "list_all (pending_ok (Suc (written c))) ((procs c)[i := Done])"
        proof (rule list_all_update)
          show "list_all (pending_ok (Suc (written c))) (procs c)"
            using pend by (rule list_all_mono) (rule mono)
        qed simp
        show ?thesis
          unfolding st using occ sc pend' fin cnt
          by (simp add: count_inv_def)
      qed
    qed
  qed
qed

lemma count_inv_run: "count_inv c \<Longrightarrow> count_inv (run es c)"
  by (induction es arbitrary: c) (simp_all add: count_inv_step)

lemma length_procs_step: "length (procs (step e c)) = length (procs c)"
  by (cases e) (simp split: pc.splits)

lemma length_procs_run: "length (procs (run es c)) = length (procs c)"
  by (induction es arbitrary: c) (simp_all add: length_procs_step)

lemma count_list_le_length: "count_list xs x \<le> length xs"
  by (induction xs) simp_all

text \<open>
  The two calls of one request, with no other call between them, store what the count
  step of the handler stores.
\<close>

lemma step_pair_is_increment_count:
  assumes "i < length (procs c)" and "procs c ! i = AtGet"
  shows "count_value (step (Op i pf) (step (Op i gf) c))
         = store (snd (increment_count \<lparr>get_fails = (\<lambda>_. gf), put_fails = (\<lambda>_. pf)\<rparr> cat
                    \<lparr>store = (\<lambda>k. if k = ''category:'' @ cat then count_value c else None), ops = []\<rparr>))
             (''category:'' @ cat)"
  using assms
  by (cases gf; cases pf) (simp_all add: increment_count_def kv_get_def kv_put_def Let_def)

text \<open>
  Claim C9: \<open>N\<close> requests run the count step on the same category, starting
  from an absent count; their reads and writes interleave in any order and any of them
  may fail. In every configuration reached, so also in the final one: the number of
  writes that succeeded is at most \<open>N\<close>; while no write has succeeded the count is
  absent; once a write has succeeded the stored count is the numeral of a value that is
  at least 1, at most the number of writes that succeeded, and at most \<open>N\<close>.
\<close>

theorem C9_concurrent_count_bounds:
  "written (run es (init N)) \<le> N
   \<and> (written (run es (init N)) = 0 \<longrightarrow> count_value (run es (init N)) = None)
   \<and> (0 < written (run es (init N)) \<longrightarrow>
        count_value (run es (init N)) = Some (show_int (stored_count (count_value (run es (init N)))))
        \<and> 1 \<le> stored_count (count_value (run es (init N)))
        \<and> stored_count (count_value (run es (init N))) \<le> int (written (run es (init N)))
        \<and> stored_count (count_value (run es (init N))) \<le> int N)"
proof -
  let ?c = "run es (init N)"
  have inv: "count_inv ?c" by (intro count_inv_run count_inv_init)
  have len: "length (procs ?c) = N" by (simp add: length_procs_run init_def)
  have w: "written ?c \<le> N"
    using inv count_list_le_length [of "procs ?c" Done] len by (simp add: count_inv_def)
  have store: "case count_value ?c of
         None \<Rightarrow> written ?c = 0
       | Some s \<Rightarrow> s = show_int (stored_count (Some s)) \<and> 1 \<le> stored_count (Some s)
                    \<and> stored_count (Some s) \<le> int (written ?c)"
    using inv by (simp add: count_inv_def)
  show ?thesis
  proof (cases "count_value ?c")
    case None
    then show ?thesis using store w by simp
  next
    case (Some s)
    then show ?thesis using store w by auto
  qed
qed

lemma lost_update_run:
  "run [Op 0 False, Op 1 False, Op 0 False, Op 1 False] (init 2)
     = \<lparr>count_value = Some ''1'', procs = [Done, Done], written = 2\<rparr>"
  by code_simp

lemma serial_run:
  "run [Op 0 False, Op 0 False, Op 1 False, Op 1 False] (init 2)
     = \<lparr>count_value = Some ''2'', procs = [Done, Done], written = 2\<rparr>"
  by code_simp

theorem C9_concurrent_count_bounds_witness:
  "count_value (run [Op 0 False, Op 1 False, Op 0 False, Op 1 False] (init 2)) = Some ''1''
   \<and> 1 \<le> stored_count (count_value (run [Op 0 False, Op 1 False, Op 0 False, Op 1 False] (init 2)))
   \<and> stored_count (count_value (run [Op 0 False, Op 1 False, Op 0 False, Op 1 False] (init 2))) \<le> 2
   \<and> count_value (run [Op 0 False, Op 0 False, Op 1 False, Op 1 False] (init 2)) = Some ''2''
   \<and> 1 \<le> stored_count (count_value (run [Op 0 False, Op 0 False, Op 1 False, Op 1 False] (init 2)))
   \<and> stored_count (count_value (run [Op 0 False, Op 0 False, Op 1 False, Op 1 False] (init 2))) \<le> 2"
proof -
  have a: "0 < written (run [Op 0 False, Op 1 False, Op 0 False, Op 1 False] (init 2))"
    unfolding lost_update_run by simp
  have b: "0 < written (run [Op 0 False, Op 0 False, Op 1 False, Op 1 False] (init 2))"
    unfolding serial_run by simp
  have c: "count_value (run [Op 0 False, Op 1 False, Op 0 False, Op 1 False] (init 2)) = Some ''1''"
    unfolding lost_update_run by simp
  have d: "count_value (run [Op 0 False, Op 0 False, Op 1 False, Op 1 False] (init 2)) = Some ''2''"
    unfolding serial_run by simp
  show ?thesis
    using C9_concurrent_count_bounds [of "[Op 0 False, Op 1 False, Op 0 False, Op 1 False]" 2]
      C9_concurrent_count_bounds [of "[Op 0 False, Op 0 False, Op 1 False, Op 1 False]" 2] a b c d
    by (simp del: run.simps)
qed

section \<open>Properties of the classifier and summary blocks\<close>

lemma assign_fields_object:
  "assign_fields (JObj fs) =
     \<lparr>sentiment = nullish (map_of fs ''sentiment'') (JStr ''unknown''),
      category = nullish (map_of fs ''category'') (JStr ''unknown''),
      summary = nullish (map_of fs ''summary'') (JStr ''N/A'')\<rparr>"
  by (simp add: assign_fields_def get_prop_def default_result_def)

lemma assign_fields_no_keys:
  assumes "map_of fs ''sentiment'' = None" "map_of fs ''category'' = None" "map_of fs ''summary'' = None"
  shows "assign_fields (JObj fs) = default_result"
  using assms by (simp add: assign_fields_object nullish_def default_result_def)

lemma classify_fallback:
  "classify parse (Inl err) = default_result"
  "response_text res = None \<Longrightarrow> classify parse (Inr res) = default_result"
  "response_text res = Some [] \<Longrightarrow> classify parse (Inr res) = default_result"
  "response_text res = Some raw \<Longrightarrow> index_of (CHR ''{'') raw = None \<Longrightarrow>
     classify parse (Inr res) = default_result"
  "response_text res = Some raw \<Longrightarrow> last_index_of (CHR ''}'') raw = None \<Longrightarrow>
     classify parse (Inr res) = default_result"
  "response_text res = Some raw \<Longrightarrow> index_of (CHR ''{'') raw = Some i \<Longrightarrow>
     last_index_of (CHR ''}'') raw = Some j \<Longrightarrow> parse (slice raw i (j + 1)) = None \<Longrightarrow>
     classify parse (Inr res) = default_result"
  by (simp_all add: classify_def split: option.splits)

lemma classify_object:
  "response_text res = Some raw \<Longrightarrow> raw \<noteq> [] \<Longrightarrow> index_of (CHR ''{'') raw = Some i \<Longrightarrow>
     last_index_of (CHR ''}'') raw = Some j \<Longrightarrow> parse (slice raw i (j + 1)) = Some (JObj fs) \<Longrightarrow>
     classify parse (Inr res) =
       \<lparr>sentiment = nullish (map_of fs ''sentiment'') (JStr ''unknown''),
        category = nullish (map_of fs ''category'') (JStr ''unknown''),
        summary = nullish (map_of fs ''summary'') (JStr ''N/A'')\<rparr>"
  by (simp add: classify_def assign_fields_object)

lemma nullish_default: "nullish m JNull = JNull \<Longrightarrow> nullish m d = d"
  by (auto simp: nullish_def split: option.splits json.splits)

lemma assign_fields_no_fields: "no_fields p \<Longrightarrow> assign_fields p = default_result"
proof (cases p)
  case (JObj fs)
  assume "no_fields p"
  then have "nullish (map_of fs ''sentiment'') (JStr ''unknown'') = JStr ''unknown''"
    "nullish (map_of fs ''category'') (JStr ''unknown'') = JStr ''unknown''"
    "nullish (map_of fs ''summary'') (JStr ''N/A'') = JStr ''N/A''"
    using JObj by (simp_all add: no_fields_def nullish_default)
  then show ?thesis using JObj by (simp add: assign_fields_object default_result_def)
qed (simp_all add: assign_fields_def get_prop_def nullish_def default_result_def)

lemma classify_failed: "classifier_failed parse c \<Longrightarrow> classify parse c = default_result"
  by (auto simp: classifier_failed_def classify_def assign_fields_no_fields
           split: sum.splits option.splits)

text \<open>
  Claim C5: for every submission text, if the classifier call fails (it throws, or its
  reply has no text, no pair of braces, text between the braces that is not JSON, or
  an object with none of the three keys), the classification is exactly
  \<^verbatim>\<open>{sentiment: "unknown", category: "unknown", summary: "N/A"}\<close>, and when the reply
  parses to an object each key that is missing or null falls back to its default on
  its own. No error is propagated: with the table working, the submission is persisted
  and the handler answers with status 200 and the success body carrying the default
  classification.
\<close>

theorem C5_classifier_fallback:
  assumes "text \<noteq> []" and "\<not> create_fails (db e)" and "\<not> insert_fails (db e)"
    and "classifier_failed parse (classifier_call e)"
  shows "classify parse (classifier_call e) = default_result
    \<and> (\<exists>b w'. fetch_ingest parse head e (Some text) w = (Reply 200 (Success b), w')
          \<and> s_sentiment b = JStr ''unknown'' \<and> s_category b = JStr ''unknown''
          \<and> s_summary b = JStr ''N/A'' \<and> rows w' = rows w @ [text])
    \<and> (\<forall>res raw i j fs.
          response_text res = Some raw \<and> raw \<noteq> [] \<and> index_of (CHR ''{'') raw = Some i
          \<and> last_index_of (CHR ''}'') raw = Some j \<and> parse (slice raw i (j + 1)) = Some (JObj fs) \<longrightarrow>
          classify parse (Inr res) =
            \<lparr>sentiment = nullish (map_of fs ''sentiment'') (JStr ''unknown''),
             category = nullish (map_of fs ''category'') (JStr ''unknown''),
             summary = nullish (map_of fs ''summary'') (JStr ''N/A'')\<rparr>)"
proof -
  have d: "classify parse (classifier_call e) = default_result"
    using assms(4) by (rule classify_failed)
  have "\<exists>b w'. fetch_ingest parse head e (Some text) w = (Reply 200 (Success b), w')
          \<and> s_sentiment b = JStr ''unknown'' \<and> s_category b = JStr ''unknown''
          \<and> s_summary b = JStr ''N/A'' \<and> rows w' = rows w @ [text]"
    using assms(1-3) d
    by (simp add: fetch_ingest_def persist_def Let_def case_prod_beta default_result_def)
  moreover have "\<forall>res raw i j fs.
          response_text res = Some raw \<and> raw \<noteq> [] \<and> index_of (CHR ''{'') raw = Some i
          \<and> last_index_of (CHR ''}'') raw = Some j \<and> parse (slice raw i (j + 1)) = Some (JObj fs) \<longrightarrow>
          classify parse (Inr res) =
            \<lparr>sentiment = nullish (map_of fs ''sentiment'') (JStr ''unknown''),
             category = nullish (map_of fs ''category'') (JStr ''unknown''),
             summary = nullish (map_of fs ''summary'') (JStr ''N/A'')\<rparr>"
    using classify_object by blast
  ultimately show ?thesis using d by blast
qed

lemma failed_replies:
  "classifier_failed json_parse (Inl NetworkError)"
  "classifier_failed json_parse (reply_with ''I cannot answer that'')"
  "classifier_failed json_parse (reply_with ''Here it is: {oops}'')"
  "classifier_failed json_parse (reply_with ''{}'')"
  by code_simp+

lemma partial_reply:
  "classify json_parse (reply_with (''Sure: '' @ JSON_stringify (JObj [(''category'', JStr ''billing'')])))
     = \<lparr>sentiment = JStr ''unknown'', category = JStr ''billing'', summary = JStr ''N/A''\<rparr>"
  by code_simp

lemma classifier_down_answer:
  "fst (fetch_ingest json_parse head_as_line_170 (all_succeed\<lparr>classifier_call := Inl NetworkError\<rparr>)
          (Some ''slow checkout'') seen_unknown)
     = Reply 200 (Success \<lparr>s_text = ''slow checkout'', s_sentiment = JStr ''unknown'',
          s_category = JStr ''unknown'', s_summary = JStr ''N/A'',
          s_category_summary = JStr ''Checkout is slow and fails.'',
          s_occurrences = 2, s_examples = [JStr ''checkout fails'', JStr ''slow checkout'']\<rparr>)"
  by code_simp

theorem C5_classifier_fallback_witness:
  "classify json_parse (Inl NetworkError) = default_result
   \<and> classify json_parse (reply_with ''I cannot answer that'') = default_result
   \<and> classify json_parse (reply_with ''Here it is: {oops}'') = default_result
   \<and> classify json_parse (reply_with ''{}'') = default_result
   \<and> rows (snd (fetch_ingest json_parse head_as_line_170 (all_succeed\<lparr>classifier_call := Inl NetworkError\<rparr>)
                  (Some ''slow checkout'') seen_unknown)) = [''checkout fails'', ''slow checkout'']
   \<and> (\<exists>b. fst (fetch_ingest json_parse head_as_line_170 (all_succeed\<lparr>classifier_call := Inl NetworkError\<rparr>)
                  (Some ''slow checkout'') seen_unknown) = Reply 200 (Success b)
            \<and> s_sentiment b = JStr ''unknown'' \<and> s_category b = JStr ''unknown''
            \<and> s_summary b = JStr ''N/A'')"
proof -
  have t: "''slow checkout'' \<noteq> []" by simp
  have c: "\<not> create_fails (db (all_succeed\<lparr>classifier_call := x\<rparr>))"
    and i: "\<not> insert_fails (db (all_succeed\<lparr>classifier_call := x\<rparr>))" for x
    by (simp_all add: all_succeed_def)
  have r: "rows seen_unknown = [''checkout fails'']" by (simp add: seen_unknown_def)
  note T = C5_classifier_fallback [OF t c i, where parse = json_parse and head = head_as_line_170
             and w = seen_unknown]
  have a: "classify json_parse (Inl NetworkError) = default_result
     \<and> rows (snd (fetch_ingest json_parse head_as_line_170 (all_succeed\<lparr>classifier_call := Inl NetworkError\<rparr>)
                  (Some ''slow checkout'') seen_unknown)) = [''checkout fails'', ''slow checkout'']
     \<and> (\<exists>b. fst (fetch_ingest json_parse head_as_line_170 (all_succeed\<lparr>classifier_call := Inl NetworkError\<rparr>)
                  (Some ''slow checkout'') seen_unknown) = Reply 200 (Success b)
            \<and> s_sentiment b = JStr ''unknown'' \<and> s_category b = JStr ''unknown''
            \<and> s_summary b = JStr ''N/A'')"
    using T [of "Inl NetworkError"] failed_replies(1) r by auto
  have b: "classify json_parse (reply_with ''I cannot answer that'') = default_result"
    using T [of "reply_with ''I cannot answer that''"] failed_replies(2) by simp
  have c': "classify json_parse (reply_with ''Here it is: {oops}'') = default_result"
    using T [of "reply_with ''Here it is: {oops}''"] failed_replies(3) by simp
  have d: "classify json_parse (reply_with ''{}'') = default_result"
    using T [of "reply_with ''{}''"] failed_replies(4) by simp
  from a b c' d show ?thesis by blast
qed

section \<open>The ingest route answers\<close>

text \<open>
  Claim C1: for every ingest request with a text in which the table is created and the
  submission inserted, the handler answers with status 200 and the success body
  carrying the submission, whatever the classifier call, the reads and writes of the
  store and the merge calls do, and the submission is among the persisted rows.
\<close>

theorem C1_success_after_persist:
  assumes "text \<noteq> []" and "\<not> create_fails (db e)" and "\<not> insert_fails (db e)"
  shows "\<exists>b w'. fetch_ingest parse head e (Some text) w = (Reply 200 (Success b), w')
           \<and> s_text b = text \<and> rows w' = rows w @ [text]"
  using assms
  by (simp add: fetch_ingest_def persist_def Let_def case_prod_beta)

lemma only_table_works_answer:
  "fst (fetch_ingest json_parse head_as_line_170 only_table_works (Some ''slow checkout'') seen_billing)
     = Reply 200 (Success \<lparr>s_text = ''slow checkout'', s_sentiment = JStr ''unknown'',
          s_category = JStr ''unknown'', s_summary = JStr ''N/A'', s_category_summary = JStr ''N/A'',
          s_occurrences = 0, s_examples = []\<rparr>)"
  by code_simp

lemma all_succeed_answer:
  "fst (fetch_ingest json_parse head_as_line_170 all_succeed (Some ''slow checkout'') seen_billing)
     = Reply 200 (Success \<lparr>s_text = ''slow checkout'', s_sentiment = JStr ''negative'',
          s_category = JStr ''billing'', s_summary = JStr ''Checkout is slow.'',
          s_category_summary = JStr ''Checkout is slow and fails.'',
          s_occurrences = 2, s_examples = [JStr ''checkout fails'', JStr ''slow checkout'']\<rparr>)"
  by code_simp

theorem C1_success_after_persist_witness:
  "fst (fetch_ingest json_parse head_as_line_170 only_table_works (Some ''slow checkout'') seen_billing)
     = Reply 200 (Success \<lparr>s_text = ''slow checkout'', s_sentiment = JStr ''unknown'',
          s_category = JStr ''unknown'', s_summary = JStr ''N/A'', s_category_summary = JStr ''N/A'',
          s_occurrences = 0, s_examples = []\<rparr>)
   \<and> rows (snd (fetch_ingest json_parse head_as_line_170 only_table_works (Some ''slow checkout'') seen_billing))
       = [''checkout fails'', ''slow checkout'']"
proof -
  have t: "''slow checkout'' \<noteq> []" by simp
  have c: "\<not> create_fails (db only_table_works)" and i: "\<not> insert_fails (db only_table_works)"
    by (simp_all add: only_table_works_def)
  have r: "rows seen_billing = [''checkout fails'']" by (simp add: seen_billing_def)
  show ?thesis
    using C1_success_after_persist [OF t c i, of json_parse head_as_line_170 seen_billing]
      only_table_works_answer r
    by auto
qed

section \<open>A failed merge keeps the stored summary\<close>

lemma nullish_no_summary:
  "merged_summary_in v = None \<Longrightarrow> nullish (optional_prop v ''merged_summary'') d = d"
  by (cases v) (auto simp: merged_summary_in_def optional_prop_def nullish_def split: option.splits json.splits)

lemma store_merged_keeps:
  assumes "nullish m (JStr existing) = JStr existing" and "store st k = Some existing"
  shows "fst (store_merged f k existing m st) = JStr existing
         \<and> store (snd (store_merged f k existing m st)) k = Some existing"
  using assms by (simp add: store_merged_def kv_put_value_def kv_put_def Let_def)

lemma get_prop_no_summary:
  "merged_summary_in p = None \<Longrightarrow> get_prop p ''merged_summary'' = Inr m \<Longrightarrow>
     nullish m (JStr existing) = JStr existing"
  by (cases p) (auto simp: merged_summary_in_def get_prop_def nullish_def split: option.splits json.splits)

lemma merge_attempt_keeps_store:
  assumes st: "store st k = Some existing"
    and own: "merged_summary_in aiRes = None"
    and body: "text_out aiRes = []
              \<or> (case parse (text_out aiRes) of None \<Rightarrow> True | Some p \<Rightarrow> merged_summary_in p = None)"
  shows "store (snd (merge_attempt parse f k existing cs aiRes st)) k = Some existing"
proof (cases "text_out aiRes = []")
  case True
  have n: "nullish None (JStr existing) = JStr existing" by (simp add: nullish_def)
  show ?thesis
  proof (cases aiRes)
    case (JObj fs)
    have "nullish (map_of fs ''merged_summary'') (JStr existing) = JStr existing"
      using own JObj nullish_no_summary [of aiRes "JStr existing"] by (simp add: optional_prop_def)
    then show ?thesis
      using True JObj store_merged_keeps [OF _ st, of "map_of fs ''merged_summary''" f]
      by (simp add: merge_attempt_def)
  next
    case (JArr xs)
    then show ?thesis
      using True store_merged_keeps [OF n st, of f] by (simp add: merge_attempt_def)
  qed (use True st in \<open>simp_all add: merge_attempt_def\<close>)
next
  case False
  show ?thesis
  proof (cases "parse (text_out aiRes)")
    case None
    then show ?thesis using False st by (simp add: merge_attempt_def)
  next
    case (Some p)
    then have p: "merged_summary_in p = None" using body False by simp
    show ?thesis
    proof (cases "get_prop p ''merged_summary''")
      case (Inl e)
      then show ?thesis using False Some st by (simp add: merge_attempt_def)
    next
      case (Inr m)
      have "nullish m (JStr existing) = JStr existing"
        using p Inr by (rule get_prop_no_summary)
      then show ?thesis
        using False Some Inr store_merged_keeps [OF _ st, of m f] by (simp add: merge_attempt_def)
    qed
  qed
qed

lemma later_merge_keeps:
  assumes st: "store st k = Some existing"
    and own: "merged_summary_in aiRes = None"
    and hlp: "merged_summary_in (extractAndParseMerge parse head aiRes) = None"
  shows "fst (later_merge parse head f2 k existing aiRes st) = JStr existing
         \<and> store (snd (later_merge parse head f2 k existing aiRes st)) k = Some existing"
proof -
  let ?h = "extractAndParseMerge parse head aiRes"
  let ?parsed = "if ?h \<noteq> JNull then ?h
                 else (case aiRes of JObj fs \<Rightarrow> aiRes | JArr xs \<Rightarrow> aiRes | _ \<Rightarrow> JNull)"
  have "merged_summary_in ?parsed = None"
    using own hlp by (cases aiRes) (simp_all add: merged_summary_in_def)
  then have "nullish (optional_prop ?parsed ''merged_summary'') (JStr existing) = JStr existing"
    by (rule nullish_no_summary)
  then show ?thesis
    using store_merged_keeps [OF _ st, of "optional_prop ?parsed ''merged_summary''" f2]
    by (simp add: later_merge_def Let_def)
qed

lemma merge_branch_failed:
  assumes st: "store st k = Some existing"
    and fail: "merge_failed parse head first call1 call2"
  shows "fst (merge_branch parse head first f f2 call1 call2 k existing cs st) = JStr existing
         \<and> store (snd (merge_branch parse head first f f2 call1 call2 k existing cs st)) k = Some existing"
proof (cases call1)
  case (Inl e)
  then show ?thesis using st by (simp add: merge_branch_def)
next
  case a1: (Inr a1)
  show ?thesis
  proof (cases call2)
    case (Inl e)
    then show ?thesis using st a1 by (simp add: merge_branch_def)
  next
    case a2: (Inr a2)
    let ?r = "if first then a1 else a2"
    have rf: "reply_failed parse head ?r"
      using fail a1 a2 by (simp add: merge_failed_def)
    then have own: "merged_summary_in ?r = None"
      and body: "text_out ?r = []
              \<or> (case parse (text_out ?r) of None \<Rightarrow> True | Some p \<Rightarrow> merged_summary_in p = None)"
      and hlp: "merged_summary_in (extractAndParseMerge parse head ?r) = None"
      by (simp_all add: reply_failed_def)
    have st1: "store (snd (merge_attempt parse f k existing cs ?r st)) k = Some existing"
      using st own body by (rule merge_attempt_keeps_store)
    show ?thesis
      using later_merge_keeps [OF st1 own hlp, of f2] a1 a2
      by (simp add: merge_branch_def Let_def)
  qed
qed

lemma summary_step_failed_merge:
  assumes "\<not> get_fails f (''category_summary:'' @ to_str cat)"
    and "store st (''category_summary:'' @ to_str cat) = Some existing"
    and "merge_failed parse head first call1 call2"
  shows "fst (summary_step parse head first f f2 call1 call2 cat summ st) = JStr existing
         \<and> store (snd (summary_step parse head first f f2 call1 call2 cat summ st))
              (''category_summary:'' @ to_str cat) = Some existing"
proof -
  let ?k = "''category_summary:'' @ to_str cat"
  have st1: "store (st\<lparr>ops := ops st @ [Get ?k]\<rparr>) ?k = Some existing"
    using assms(2) by simp
  have "summary_step parse head first f f2 call1 call2 cat summ st
          = merge_branch parse head first f f2 call1 call2 ?k existing summ (st\<lparr>ops := ops st @ [Get ?k]\<rparr>)"
    using assms(1,2) by (simp add: summary_step_def kv_get_ok Let_def)
  then show ?thesis
    using merge_branch_failed [OF st1 assms(3), of f f2 summ] by simp
qed

text \<open>
  Claim C4: for every category with an existing stored summary whose read succeeds, if
  a merge call throws, or the reply is empty, is not parsable, or has no
  \<^verbatim>\<open>merged_summary\<close> (and the reply is not itself an object with one, and the
  helper finds none), then \<^verbatim>\<open>category_summary\<close> is the stored summary, unchanged,
  and the stored summary is still the one that was stored, whichever writes fail.
\<close>

theorem C4_failed_merge_keeps_summary:
  assumes "\<not> get_fails f (''category_summary:'' @ to_str cat)"
    and "store st (''category_summary:'' @ to_str cat) = Some existing"
    and "merge_failed parse head first call1 call2"
  shows "fst (summary_step parse head first f f2 call1 call2 cat summ st) = JStr existing
         \<and> store (snd (summary_step parse head first f f2 call1 call2 cat summ st))
              (''category_summary:'' @ to_str cat) = Some existing"
  using assms by (rule summary_step_failed_merge)

lemma failed_merges:
  "merge_failed json_parse head_as_line_170 False (Inl NetworkError) (Inr merge_reply)"
  "merge_failed json_parse head_as_line_170 False (Inr merge_reply) (Inl NetworkError)"
  "merge_failed json_parse head_as_line_170 False (reply_with []) (reply_with [])"
  "merge_failed json_parse head_as_line_170 False (reply_with ''oops'') (reply_with ''oops'')"
  "merge_failed json_parse head_as_line_170 False (reply_with ''{}'') (reply_with ''{}'')"
  by code_simp+

theorem C4_failed_merge_keeps_summary_witness:
  "merge_outcome (Inl NetworkError) (Inr merge_reply) = (JStr ''Checkout fails.'', Some ''Checkout fails.'')
   \<and> merge_outcome (Inr merge_reply) (Inl NetworkError) = (JStr ''Checkout fails.'', Some ''Checkout fails.'')
   \<and> merge_outcome (reply_with []) (reply_with []) = (JStr ''Checkout fails.'', Some ''Checkout fails.'')
   \<and> merge_outcome (reply_with ''oops'') (reply_with ''oops'')
       = (JStr ''Checkout fails.'', Some ''Checkout fails.'')
   \<and> merge_outcome (reply_with ''{}'') (reply_with ''{}'')
       = (JStr ''Checkout fails.'', Some ''Checkout fails.'')"
proof -
  have g: "\<not> get_fails no_faults (''category_summary:'' @ to_str (JStr ''billing''))"
    by (simp add: no_faults_def)
  have s: "store (cache seen_billing) (''category_summary:'' @ to_str (JStr ''billing'')) = Some ''Checkout fails.''"
    by (simp add: seen_billing_def)
  note T = C4_failed_merge_keeps_summary [OF g s, where parse = json_parse and head = head_as_line_170
             and first = False and ?f2.0 = no_faults and summ = "JStr ''Checkout is slow.''"]
  show ?thesis
    using T [OF failed_merges(1)] T [OF failed_merges(2)] T [OF failed_merges(3)]
      T [OF failed_merges(4)] T [OF failed_merges(5)]
    by (simp add: merge_outcome_def)
qed

text \<open>
  The same at the level of the request: the \<^verbatim>\<open>category_summary\<close> of the answer is
  the stored summary.
\<close>

lemma count_key_neq_summary_key: "''category:'' @ a \<noteq> ''category_summary:'' @ b"
  by simp

lemma store_increment_count_other:
  "k \<noteq> ''category:'' @ cat \<Longrightarrow> store (snd (increment_count f cat st)) k = store st k"
  by (simp add: increment_count_def kv_get_def kv_put_def Let_def split: option.splits)

lemma failed_merge_in_answer:
  assumes "text \<noteq> []" and "\<not> create_fails (db e)" and "\<not> insert_fails (db e)"
    and "\<not> get_fails (kv e) (''category_summary:'' @ to_str (category (classify parse (classifier_call e))))"
    and "store (cache w) (''category_summary:'' @ to_str (category (classify parse (classifier_call e))))
           = Some existing"
    and "merge_failed parse head (first_binding e) (merge_call_messages e) (merge_call_input e)"
  shows "\<exists>b w'. fetch_ingest parse head e (Some text) w = (Reply 200 (Success b), w')
           \<and> s_category_summary b = JStr existing"
proof -
  let ?cls = "classify parse (classifier_call e)"
  let ?k = "''category_summary:'' @ to_str (category ?cls)"
  let ?st1 = "snd (increment_count (kv e) (to_str (category ?cls)) (cache w))"
  have "store ?st1 ?k = store (cache w) ?k"
    by (rule store_increment_count_other) simp
  then have ex: "store ?st1 ?k = Some existing" using assms(5) by simp
  have "fst (summary_step parse head (first_binding e) (kv e) (late_put e) (merge_call_messages e)
               (merge_call_input e) (category ?cls) (summary ?cls) ?st1) = JStr existing"
    using summary_step_failed_merge [OF assms(4) ex assms(6)] by simp
  then show ?thesis
    using assms(1-3) by (simp add: fetch_ingest_def persist_def Let_def case_prod_beta)
qed

section \<open>Properties of the insights entries\<close>

lemma insights_item_reads_ok:
  assumes "\<not> get_fails f name"
    and "\<not> get_fails f (''category_summary:'' @ strip_prefix ''category:'' name)"
    and "\<not> get_fails f (''category_examples:'' @ strip_prefix ''category:'' name)"
  shows "\<exists>it st'. insights_item parse f name st = (Inr it, st') \<and> store st' = store st
     \<and> item_category it = strip_prefix ''category:'' name
     \<and> item_summary it = store st (''category_summary:'' @ strip_prefix ''category:'' name)
     \<and> (store st (''category_examples:'' @ strip_prefix ''category:'' name) = None
          \<or> store st (''category_examples:'' @ strip_prefix ''category:'' name) = Some [] \<longrightarrow>
          item_examples it = JArr [])
     \<and> (\<forall>s. store st (''category_examples:'' @ strip_prefix ''category:'' name) = Some s \<and> parse s = None \<longrightarrow>
          item_examples it = JArr [])
     \<and> (\<forall>s xs. store st (''category_examples:'' @ strip_prefix ''category:'' name) = Some s \<and> s \<noteq> []
              \<and> parse s = Some (JArr xs) \<longrightarrow> item_examples it = JArr xs)"
  using assms
  by (auto simp: insights_item_def kv_get_def Let_def split: option.splits)

lemma collect_items_reads_ok:
  assumes "\<forall>name \<in> set names. \<not> get_fails f name
             \<and> \<not> get_fails f (''category_summary:'' @ strip_prefix ''category:'' name)
             \<and> \<not> get_fails f (''category_examples:'' @ strip_prefix ''category:'' name)"
  shows "\<exists>its st'. collect_items parse f names st = (Inr its, st') \<and> store st' = store st
           \<and> length its = length names
           \<and> (\<forall>i < length names. entry_as_stored parse (store st) (names ! i) (its ! i))"
  using assms
proof (induction names arbitrary: st)
  case Nil
  then show ?case by simp
next
  case (Cons name names)
  obtain it st1 where it: "insights_item parse f name st = (Inr it, st1)" "store st1 = store st"
    and e: "entry_as_stored parse (store st) name it"
    using insights_item_reads_ok [of f name parse st] Cons.prems
    unfolding entry_as_stored_def by auto
  obtain its st2 where its: "collect_items parse f names st1 = (Inr its, st2)" "store st2 = store st1"
    "length its = length names"
    "\<forall>i < length names. entry_as_stored parse (store st1) (names ! i) (its ! i)"
    using Cons.IH [of st1] Cons.prems by auto
  have c: "collect_items parse f (name # names) st = (Inr (it # its), st2)"
    using it its by simp
  have "\<forall>i < length (name # names). entry_as_stored parse (store st) ((name # names) ! i) ((it # its) ! i)"
  proof (intro allI impI)
    fix i assume "i < length (name # names)"
    then show "entry_as_stored parse (store st) ((name # names) ! i) ((it # its) ! i)"
      using e its(4) it(2) by (cases i) simp_all
  qed
  then show ?case using c its it by simp
qed


text \<open>
  Claim C8, as stated, fails: a stored examples value that parses to an array is put
  into the entry as it is, with no check of its elements. With \<^verbatim>\<open>[1,2]\<close> stored,
  which is not a sequence of strings, the request is answered with the examples
  \<^verbatim>\<open>[1,2]\<close>, not with the empty sequence.
\<close>

theorem C8_counterexample:
  "fst (insights json_parse no_faults (Inr [''category:billing'']) None None
          \<lparr>store = [''category:billing'' \<mapsto> ''3'', ''category_examples:billing'' \<mapsto> ''[1,2]''], ops = []\<rparr>)
     = Reply 200 (Items [\<lparr>item_category = ''billing'', item_occurrences = 3, item_summary = None,
                           item_examples = JArr [JNum 1, JNum 2]\<rparr>])
   \<and> JArr [JNum 1, JNum 2] \<noteq> JArr []"
  by code_simp

text \<open>
  Claim C8, amended: for every GET /insights request in which the reads of the listed
  keys succeed, an entry is built for every listed category; its summary is null when
  no summary value is stored for the category; its examples are the empty sequence
  when the stored examples value is absent, is the empty string or is not parsable as
  JSON, and are the stored array, elements unchecked, when the value parses to an
  array. The JSON view answers with these entries, sorted. Nothing is claimed of a
  stored value that parses to something that is not an array.
\<close>

theorem C8_insights_entries:
  assumes "\<forall>name \<in> set names. \<not> get_fails f name
             \<and> \<not> get_fails f (''category_summary:'' @ strip_prefix ''category:'' name)
             \<and> \<not> get_fails f (''category_examples:'' @ strip_prefix ''category:'' name)"
  shows "\<exists>its st'. collect_items parse f names st = (Inr its, st')
           \<and> length its = length names
           \<and> (\<forall>i < length names. entry_as_stored parse (store st) (names ! i) (its ! i))
           \<and> (\<not> wants_html accept view \<longrightarrow>
                insights parse f (Inr names) accept view st
                  = (Reply 200 (Items (sort_key (\<lambda>it. - item_occurrences it) its)), st'))"
proof -
  obtain its st' where c: "collect_items parse f names st = (Inr its, st')"
    "length its = length names"
    "\<forall>i < length names. entry_as_stored parse (store st) (names ! i) (its ! i)"
    using collect_items_reads_ok [OF assms, of parse st] by blast
  have "\<not> wants_html accept view \<longrightarrow>
          insights parse f (Inr names) accept view st
            = (Reply 200 (Items (sort_key (\<lambda>it. - item_occurrences it) its)), st')"
    using c(1) by (simp add: insights_def Let_def)
  then show ?thesis using c by blast
qed

lemma parse_oops: "json_parse ''oops'' = None"
  by code_simp

lemma no_html_wanted: "\<not> wants_html None None"
  by code_simp

theorem C8_insights_entries_witness:
  "\<exists>its. fst (collect_items json_parse no_faults [''category:billing'']
               \<lparr>store = [''category:billing'' \<mapsto> ''3'', ''category_examples:billing'' \<mapsto> ''oops''], ops = []\<rparr>)
             = Inr its
     \<and> length its = 1
     \<and> item_category (its ! 0) = ''billing'' \<and> item_summary (its ! 0) = None
     \<and> item_examples (its ! 0) = JArr []
     \<and> fst (insights json_parse no_faults (Inr [''category:billing'']) None None
               \<lparr>store = [''category:billing'' \<mapsto> ''3'', ''category_examples:billing'' \<mapsto> ''oops''], ops = []\<rparr>)
         = Reply 200 (Items (sort_key (\<lambda>it. - item_occurrences it) its))"
proof -
  let ?st = "\<lparr>store = [''category:billing'' \<mapsto> ''3'', ''category_examples:billing'' \<mapsto> ''oops''], ops = []\<rparr>"
  have sp: "strip_prefix ''category:'' ''category:billing'' = ''billing''"
    by (simp add: strip_prefix_def)
  have g: "\<forall>name \<in> set [''category:billing'']. \<not> get_fails no_faults name
             \<and> \<not> get_fails no_faults (''category_summary:'' @ strip_prefix ''category:'' name)
             \<and> \<not> get_fails no_faults (''category_examples:'' @ strip_prefix ''category:'' name)"
    by (simp add: no_faults_def)
  obtain its st' where c: "collect_items json_parse no_faults [''category:billing''] ?st = (Inr its, st')"
    and l: "length its = length [''category:billing'']"
    and e: "\<forall>i < length [''category:billing''].
              entry_as_stored json_parse (store ?st) ([''category:billing''] ! i) (its ! i)"
    and j: "\<not> wants_html None None \<longrightarrow>
              insights json_parse no_faults (Inr [''category:billing'']) None None ?st
                = (Reply 200 (Items (sort_key (\<lambda>it. - item_occurrences it) its)), st')"
    using C8_insights_entries [OF g, of json_parse ?st None None] by blast
  have e0: "entry_as_stored json_parse (store ?st) ''category:billing'' (its ! 0)"
    using e by simp
  have f: "item_category (its ! 0) = ''billing''" "item_summary (its ! 0) = None"
    "item_examples (its ! 0) = JArr []"
    using e0 parse_oops by (simp_all add: entry_as_stored_def sp)
  show ?thesis
    using c l f j no_html_wanted by (intro exI [of _ its]) simp
qed

end
